theory Spec2Isabelle
  imports Complex_Main
begin

section \<open>Python values used by the script\<close>

text \<open>
  \<^verbatim>\<open>scripts/route_finder.py\<close> is a command-line script around the SUMO traffic simulator.
  A Python float is a \<open>pyfloat\<close>: a real (the rounding of a finite value to the
  nearest double is not modelled), an infinity or \<open>nan\<close>. Python ints are
  naturals (every int of the script is a counter or a length). A Python string is a
  \<open>string\<close>, a list of characters with code points below 256; text with a
  character above 255 is not modelled. An exception is a value of \<open>exn\<close>: a
  function that can raise returns \<open>exn + 'a\<close>, with \<open>Inl\<close> for the exception.
  \<open>sys.exit(msg)\<close> raises \<open>SystemExit\<close>.
\<close>

datatype exn = SystemExit string | ValueError | IndexError | TraCIException string

datatype pyfloat = Finite real | PosInf | NegInf | NaN

definition negate :: "pyfloat \<Rightarrow> pyfloat" where
  "negate v = (case v of Finite t \<Rightarrow> Finite (- t) | PosInf \<Rightarrow> NegInf | NegInf \<Rightarrow> PosInf | NaN \<Rightarrow> NaN)"

subsection \<open>Decimal strings: \<open>str(n)\<close>, \<open>float(s)\<close> and the format \<open>:.1f\<close>\<close>

definition digit_char :: "nat \<Rightarrow> char" where
  "digit_char d = ''0123456789'' ! d"

definition is_digit :: "char \<Rightarrow> bool" where
  "is_digit c = (c \<in> set ''0123456789'')"

definition digit_val :: "char \<Rightarrow> nat" where
  "digit_val c = of_char c - 48"

text \<open>\<open>str(n)\<close> and f-string interpolation of a non-negative int.\<close>

function str_nat :: "nat \<Rightarrow> string" where
  "str_nat n = (if n < 10 then [digit_char n] else str_nat (n div 10) @ [digit_char (n mod 10)])"
  by pat_completeness auto
termination
  by (relation "measure id") auto

declare str_nat.simps [simp del]

definition nat_of_digits :: "string \<Rightarrow> nat" where
  "nat_of_digits s = foldl (\<lambda>a c. 10 * a + digit_val c) 0 s"

text \<open>
  \<open>float(s)\<close>, with \<open>None\<close> for \<open>ValueError\<close>. Python strips the
  whitespace around \<open>s\<close>; it refuses an underscore that does not stand between two
  digits and drops the others; it reads a sign, and then \<open>inf\<close>, \<open>infinity\<close> or
  \<open>nan\<close> in any case of letters, or digits with an optional fraction and an optional
  exponent, at least one digit before or after the point. Of the characters below 256,
  the whitespace that \<open>float\<close> strips is the one listed and the only decimal digits
  are \<open>0\<close> to \<open>9\<close>.
\<close>

definition is_space :: "char \<Rightarrow> bool" where
  "is_space c =
     (c \<in> set [CHR 0x09, CHR 0x0A, CHR 0x0B, CHR 0x0C, CHR 0x0D, CHR '' '', CHR 0x85, CHR 0xA0])"

definition strip :: "string \<Rightarrow> string" where
  "strip s = rev (dropWhile is_space (rev (dropWhile is_space s)))"

definition digit_part :: "string \<Rightarrow> nat option" where
  "digit_part s = (if s \<noteq> [] \<and> list_all is_digit s then Some (nat_of_digits s) else None)"

definition mantissa :: "string \<Rightarrow> real option" where
  "mantissa m =
     (let ip = takeWhile (\<lambda>c. c \<noteq> CHR ''.'') m; rest = dropWhile (\<lambda>c. c \<noteq> CHR ''.'') m in
      case rest of
        [] \<Rightarrow> map_option real (digit_part ip)
      | _ # fp \<Rightarrow>
          if (ip = [] \<and> fp = []) \<or> \<not> list_all is_digit ip \<or> \<not> list_all is_digit fp then None
          else Some (real (nat_of_digits ip) + real (nat_of_digits fp) / 10 ^ length fp))"

definition exponent :: "string \<Rightarrow> int option" where
  "exponent ex =
     (case ex of
        [] \<Rightarrow> None
      | c # d \<Rightarrow>
          if c = CHR ''-'' then map_option (\<lambda>n. - int n) (digit_part d)
          else if c = CHR ''+'' then map_option int (digit_part d)
          else map_option int (digit_part ex))"

definition not_e :: "char \<Rightarrow> bool" where
  "not_e c = (c \<noteq> CHR ''e'' \<and> c \<noteq> CHR ''E'')"

definition unsigned_float :: "string \<Rightarrow> real option" where
  "unsigned_float r =
     (let m = takeWhile not_e r; rest = dropWhile not_e r in
      case mantissa m of
        None \<Rightarrow> None
      | Some v \<Rightarrow>
          (case rest of
             [] \<Rightarrow> Some v
           | _ # ex \<Rightarrow> map_option (\<lambda>k. v * 10 powi k) (exponent ex)))"

text \<open>The letters of \<open>inf\<close>, \<open>infinity\<close> and \<open>nan\<close> in lower case.\<close>

definition lower_letter :: "char \<Rightarrow> char" where
  "lower_letter c =
     (if c = CHR ''I'' then CHR ''i'' else if c = CHR ''N'' then CHR ''n''
      else if c = CHR ''F'' then CHR ''f'' else if c = CHR ''T'' then CHR ''t''
      else if c = CHR ''Y'' then CHR ''y'' else if c = CHR ''A'' then CHR ''a'' else c)"

definition inf_or_nan :: "string \<Rightarrow> pyfloat option" where
  "inf_or_nan s =
     (let t = map lower_letter s in
      if t = ''inf'' \<or> t = ''infinity'' then Some PosInf
      else if t = ''nan'' then Some NaN else None)"

text \<open>
  An underscore is allowed only after a digit and before a digit; \<open>prev\<close> is the
  character before the ones still to read.
\<close>

fun underscores_ok :: "char \<Rightarrow> string \<Rightarrow> bool" where
  "underscores_ok prev [] = (prev \<noteq> CHR ''_'')"
| "underscores_ok prev (c # cs) =
     ((if c = CHR ''_'' then is_digit prev else if prev = CHR ''_'' then is_digit c else True) \<and>
      underscores_ok c cs)"

text \<open>
  A literal whose value is at least \<open>2 ^ 1024 - 2 ^ 970\<close>, half a unit above the
  largest double, reads as \<open>inf\<close>.
\<close>

definition overflow_bound :: real where
  "overflow_bound = 2 ^ 1024 - 2 ^ 970"

definition to_float :: "real \<Rightarrow> pyfloat" where
  "to_float v = (if overflow_bound \<le> v then PosInf else Finite v)"

definition number :: "string \<Rightarrow> pyfloat option" where
  "number s =
     (case inf_or_nan s of
        Some v \<Rightarrow> Some v
      | None \<Rightarrow> map_option to_float (unsigned_float s))"

definition py_float :: "string \<Rightarrow> pyfloat option" where
  "py_float s =
     (let t = strip s in
      if \<not> underscores_ok (CHR 0x00) t then None
      else
        (case filter (\<lambda>c. c \<noteq> CHR ''_'') t of
           [] \<Rightarrow> None
         | c # r \<Rightarrow>
             if c = CHR ''-'' then map_option negate (number r)
             else if c = CHR ''+'' then number r
             else number (c # r)))"

text \<open>The value of a string that \<open>float\<close> reads as a finite number.\<close>

definition finite_float :: "string \<Rightarrow> real option" where
  "finite_float s = (case py_float s of Some (Finite t) \<Rightarrow> Some t | _ \<Rightarrow> None)"

text \<open>
  \<open>f"{t:.1f}"\<close>: the nearest multiple of one tenth, a tie going to the even digit, written
  with one digit after the point; \<open>decimal_body k\<close> writes \<open>k\<close> tenths.
\<close>

definition round_half_even :: "real \<Rightarrow> int" where
  "round_half_even x =
     (let f = \<lfloor>x\<rfloor>; d = x - of_int f in
      if d < 1 / 2 then f else if 1 / 2 < d then f + 1 else if even f then f else f + 1)"

definition decimal_body :: "nat \<Rightarrow> string" where
  "decimal_body k = str_nat (k div 10) @ ''.'' @ [digit_char (k mod 10)]"

definition format_1f :: "real \<Rightarrow> string" where
  "format_1f t =
     (if t < 0 then ''-'' else []) @ decimal_body (nat (round_half_even (\<bar>t\<bar> * 10)))"

text \<open>\<open>sep.join(xs)\<close> and \<open>f"{s:<n}"\<close>.\<close>

fun join :: "string \<Rightarrow> string list \<Rightarrow> string" where
  "join sep [] = []"
| "join sep [x] = x"
| "join sep (x # y # ys) = x @ sep @ join sep (y # ys)"

definition ljust :: "nat \<Rightarrow> string \<Rightarrow> string" where
  "ljust n s = s @ replicate (n - length s) CHR '' ''"

section \<open>The road network as the script sees it\<close>

text \<open>
  The script reads the network through \<^verbatim>\<open>sumolib\<close>. It uses of an edge its identifier, its
  lanes and the coordinates of its two end nodes, and of a lane only the test
  \<^verbatim>\<open>lane.allows(vClass)\<close>.
\<close>

record lane =
  allowed :: "string list"

definition allows :: "lane \<Rightarrow> string \<Rightarrow> bool" where
  "allows l vClass = (vClass \<in> set (allowed l))"

record edge =
  getID :: string
  getLanes :: "lane list"
  fromCoord :: "real \<times> real"
  toCoord :: "real \<times> real"

text \<open>
  The network: its edges in the order of \<^verbatim>\<open>getEdges()\<close>, and the distance of an edge's
  shape to a point (the geometry computation of the library, kept as a field).
\<close>

record network =
  getEdges :: "edge list"
  shapeDistance :: "edge \<Rightarrow> real \<Rightarrow> real \<Rightarrow> real"

definition getEdge :: "network \<Rightarrow> string \<Rightarrow> edge option" where
  "getEdge net edge_id = find (\<lambda>e. getID e = edge_id) (getEdges net)"

text \<open>
  \<^verbatim>\<open>net.getNeighboringEdges(x, y, r)\<close> is the library's query: the pairs (edge, distance)
  of the edges whose distance \<open>d\<close> to the point satisfies \<open>d < r\<close>, in network order.
  The distance to a point with a coordinate that is infinite or \<open>nan\<close> is itself
  infinite or \<open>nan\<close>, and the test \<open>d < r\<close> fails for it.
\<close>

definition getNeighboringEdges ::
  "network \<Rightarrow> pyfloat \<Rightarrow> pyfloat \<Rightarrow> real \<Rightarrow> (edge \<times> real) list" where
  "getNeighboringEdges net x y r =
     (case (x, y) of
        (Finite a, Finite b) \<Rightarrow>
          filter (\<lambda>p. snd p < r) (map (\<lambda>e. (e, shapeDistance net e a b)) (getEdges net))
      | _ \<Rightarrow> [])"

section \<open>The world outside the script\<close>

text \<open>
  What the script cannot decide itself is an oracle of \<open>ext\<close>: whether
  \<open>SUMO_HOME\<close> is set, whether \<open>traci.start\<close> raises, what
  \<open>traci.simulation.findRoute\<close> answers (an exception or the edges of a route, empty when
  there is none), the random numbers and the lines typed by the user. Every oracle but the
  environment is indexed by the \<open>clock\<close>, the number of external calls made so far, so
  that two calls with the same arguments may answer differently.

  The \<open>world\<close> is what the script changes: the console (prints and input prompts, in
  order), \<open>sys.path\<close>, the routing sessions that are open, the log of the calls to
  \<open>traci\<close>, the files written (the document tree stands for its XML text) and the
  processes launched. Writing a file and \<open>input()\<close> are taken to succeed.
\<close>

datatype out = Print string | Prompt string

datatype traci_event = Started "string list" | StartFailed | RouteQuery string string | Closed

datatype xml = Element (tag: string) (attrs: "(string \<times> string) list") (children: "xml list")

record ext =
  sumo_home :: "string option"
  start_raises :: "nat \<Rightarrow> exn option"
  findRoute_result :: "nat \<Rightarrow> string \<Rightarrow> string \<Rightarrow> exn + string list"
  random_index :: "nat \<Rightarrow> nat"
  random_unit :: "nat \<Rightarrow> real"
  input_line :: "nat \<Rightarrow> string"

record world =
  clock :: nat
  console :: "out list"
  sys_path :: "string list"
  open_sessions :: nat
  traci_log :: "traci_event list"
  files :: "string \<rightharpoonup> xml"
  launched :: "string list list"

definition tick :: "world \<Rightarrow> world" where
  "tick w = w\<lparr>clock := Suc (clock w)\<rparr>"

definition py_print :: "string \<Rightarrow> world \<Rightarrow> world" where
  "py_print s w = w\<lparr>console := console w @ [Print s]\<rparr>"

definition py_input :: "ext \<Rightarrow> string \<Rightarrow> world \<Rightarrow> string \<times> world" where
  "py_input X prompt w = (input_line X (clock w), tick (w\<lparr>console := console w @ [Prompt prompt]\<rparr>))"

text \<open>
  \<open>random.choice(xs)\<close> raises \<open>IndexError\<close> on an empty list;
  \<open>random.uniform(a, b)\<close> is \<open>a + (b - a) * random()\<close> with \<open>random()\<close> in
  \<open>[0, 1)\<close>, here the fractional part of the oracle's number.
\<close>

definition random_choice :: "ext \<Rightarrow> 'a list \<Rightarrow> world \<Rightarrow> (exn + 'a) \<times> world" where
  "random_choice X xs w =
     (if xs = [] then (Inl IndexError, w)
      else (Inr (xs ! (random_index X (clock w) mod length xs)), tick w))"

definition random_uniform :: "ext \<Rightarrow> real \<Rightarrow> real \<Rightarrow> world \<Rightarrow> real \<times> world" where
  "random_uniform X a b w = (a + (b - a) * frac (random_unit X (clock w)), tick w)"

text \<open>
  \<open>traci.start\<close> opens a session unless it raises; \<open>traci.close\<close> closes one.
\<close>

definition traci_start :: "ext \<Rightarrow> string list \<Rightarrow> world \<Rightarrow> (exn + unit) \<times> world" where
  "traci_start X cmd w =
     (case start_raises X (clock w) of
        Some e \<Rightarrow> (Inl e, tick (w\<lparr>traci_log := traci_log w @ [StartFailed]\<rparr>))
      | None \<Rightarrow>
          (Inr (), tick (w\<lparr>open_sessions := Suc (open_sessions w),
                            traci_log := traci_log w @ [Started cmd]\<rparr>)))"

definition traci_findRoute :: "ext \<Rightarrow> string \<Rightarrow> string \<Rightarrow> world \<Rightarrow> (exn + string list) \<times> world" where
  "traci_findRoute X fromEdge toEdge w =
     (findRoute_result X (clock w) fromEdge toEdge,
      tick (w\<lparr>traci_log := traci_log w @ [RouteQuery fromEdge toEdge]\<rparr>))"

definition traci_close :: "world \<Rightarrow> world" where
  "traci_close w = w\<lparr>open_sessions := open_sessions w - 1, traci_log := traci_log w @ [Closed]\<rparr>"

definition subprocess_run :: "string list \<Rightarrow> world \<Rightarrow> world" where
  "subprocess_run cmd w = w\<lparr>launched := launched w @ [cmd]\<rparr>"

definition path_join :: "string \<Rightarrow> string \<Rightarrow> string" where
  "path_join a b = (if a = [] then b else if last a = CHR ''/'' then a @ b else a @ ''/'' @ b)"

section \<open>find_route\<close>

text \<open>
  \<^verbatim>\<open>
  def find_route(net_file, start_edge, end_edge):
      if 'SUMO_HOME' in os.environ:
          tools = os.path.join(os.environ['SUMO_HOME'], 'tools')
          sys.path.append(tools)
      else:
          sys.exit("Please declare environment variable 'SUMO_HOME'")
      sumo_binary = "sumo"
      sumo_cmd = [sumo_binary, "-n", net_file, "--no-step-log", "--no-warnings"]
      traci.start(sumo_cmd)
      try:
          route = traci.simulation.findRoute(start_edge, end_edge, vType="DEFAULT_VEHTYPE")
          if route.edges:
              return route.edges
          return None
      finally:
          traci.close()
  \<close>
  The \<open>finally\<close> clause runs on each of the three ways out of the \<open>try\<close> block.
\<close>

definition sumo_home_message :: string where
  "sumo_home_message =
     ''Please declare environment variable '' @ [CHR 0x27] @ ''SUMO_HOME'' @ [CHR 0x27]"

definition find_route ::
  "ext \<Rightarrow> string \<Rightarrow> string \<Rightarrow> string \<Rightarrow> world \<Rightarrow> (exn + string list option) \<times> world" where
  "find_route X net_file start_edge end_edge w =
     (case sumo_home X of
        None \<Rightarrow> (Inl (SystemExit sumo_home_message), w)
      | Some home \<Rightarrow>
          (let tools = path_join home ''tools'';
               w1 = w\<lparr>sys_path := sys_path w @ [tools]\<rparr>;
               sumo_binary = ''sumo'';
               sumo_cmd = [sumo_binary, ''-n'', net_file, ''--no-step-log'', ''--no-warnings'']
           in case traci_start X sumo_cmd w1 of
                (Inl e, w2) \<Rightarrow> (Inl e, w2)
              | (Inr _, w2) \<Rightarrow>
                  (case traci_findRoute X start_edge end_edge w2 of
                     (Inl e, w3) \<Rightarrow> (Inl e, traci_close w3)
                   | (Inr route_edges, w3) \<Rightarrow>
                       (if route_edges \<noteq> [] then (Inr (Some route_edges), traci_close w3)
                        else (Inr None, traci_close w3)))))"

section \<open>save_route_to_file\<close>

text \<open>
  A vehicle is the dict with the keys \<open>id\<close>, \<open>type\<close>, \<open>depart\<close> and \<open>edges\<close>.
  The state of the sampling loop is the list \<open>vehicles\<close> and the two counters.
\<close>

record vehicle =
  v_id :: string
  v_type :: string
  v_depart :: string
  v_edges :: "string list"

record sampler =
  vehicles :: "vehicle list"
  added_vehicles :: nat
  attempts :: nat

definition num_random_vehicles :: nat where
  "num_random_vehicles = 50"

definition max_attempts :: nat where
  "max_attempts = 1000"

text \<open>
  One pass through the body of the loop
  \<^verbatim>\<open>
  while added_vehicles < num_random_vehicles and attempts < max_attempts:
      start_edge = random.choice(valid_edges)
      end_edge = random.choice(valid_edges)
      random_route = find_route(net_file, start_edge, end_edge)
      if random_route:
          depart_time = random.uniform(0, 200)
          vehicles.append({"id": f"random_vehicle_{added_vehicles}", "type": "car",
                           "depart": f"{depart_time:.1f}", "edges": random_route})
          print(f"Added random vehicle {added_vehicles}: {' '.join(random_route)}")
          added_vehicles += 1
      attempts += 1
  \<close>
  An exception of \<open>random.choice\<close> or \<open>find_route\<close> leaves the loop.
\<close>

definition skip_attempt :: "sampler \<Rightarrow> sampler" where
  "skip_attempt s = s\<lparr>attempts := attempts s + 1\<rparr>"

definition sample_step ::
  "ext \<Rightarrow> string list \<Rightarrow> string \<Rightarrow> sampler \<Rightarrow> world \<Rightarrow> (exn + sampler) \<times> world" where
  "sample_step X valid_edges net_file s w =
     (case random_choice X valid_edges w of
        (Inl e, w1) \<Rightarrow> (Inl e, w1)
      | (Inr start_edge, w1) \<Rightarrow>
     (case random_choice X valid_edges w1 of
        (Inl e, w2) \<Rightarrow> (Inl e, w2)
      | (Inr end_edge, w2) \<Rightarrow>
     (case find_route X net_file start_edge end_edge w2 of
        (Inl e, w3) \<Rightarrow> (Inl e, w3)
      | (Inr None, w3) \<Rightarrow> (Inr (skip_attempt s), w3)
      | (Inr (Some random_route), w3) \<Rightarrow>
          (if random_route \<noteq> [] then
             (let (depart_time, w4) = random_uniform X 0 200 w3;
                  s1 = s\<lparr>vehicles := vehicles s @
                         [\<lparr>v_id = ''random_vehicle_'' @ str_nat (added_vehicles s),
                           v_type = ''car'',
                           v_depart = format_1f depart_time,
                           v_edges = random_route\<rparr>]\<rparr>;
                  w5 = py_print (''Added random vehicle '' @ str_nat (added_vehicles s) @ '': '' @
                                 join '' '' random_route) w4;
                  s2 = s1\<lparr>added_vehicles := added_vehicles s1 + 1\<rparr>
              in (Inr (skip_attempt s2), w5))
           else (Inr (skip_attempt s), w3)))))"

lemma sample_step_attempts:
  "sample_step X valid_edges net_file s w = (Inr s', w') \<Longrightarrow> attempts s' = Suc (attempts s)"
  by (auto simp: sample_step_def skip_attempt_def Let_def
      split: prod.splits sum.splits option.splits if_splits)

text \<open>
  The loop. It returns the exception that left it, if any, with the state reached.
\<close>

function sample_loop ::
  "ext \<Rightarrow> string list \<Rightarrow> string \<Rightarrow> sampler \<Rightarrow> world \<Rightarrow> exn option \<times> sampler \<times> world" where
  "sample_loop X valid_edges net_file s w =
     (if added_vehicles s < num_random_vehicles \<and> attempts s < max_attempts then
        (case sample_step X valid_edges net_file s w of
           (Inl e, w') \<Rightarrow> (Some e, s, w')
         | (Inr s', w') \<Rightarrow> sample_loop X valid_edges net_file s' w')
      else (None, s, w))"
  by pat_completeness auto
termination
  by (relation "measure (\<lambda>(X, valid_edges, net_file, s, w). max_attempts - attempts s)")
    (auto dest!: sample_step_attempts[OF sym])

declare sample_loop.simps [simp del]

text \<open>
  \<open>vehicles.sort(key=lambda x: float(x["depart"]))\<close>: \<open>ValueError\<close> when a key does not
  parse; otherwise a stable sort by the key, which is what \<open>sort_key\<close> is. The
  departure times that the script writes are finite (the lemma \<open>sampler_inv_parses\<close>);
  the order that Python gives to keys that are infinite or \<open>nan\<close> is not modelled.
\<close>

definition depart_key :: "vehicle \<Rightarrow> real" where
  "depart_key v = (case finite_float (v_depart v) of Some t \<Rightarrow> t | None \<Rightarrow> 0)"

definition sort_by_depart :: "vehicle list \<Rightarrow> exn + vehicle list" where
  "sort_by_depart vs =
     (if list_ex (\<lambda>v. py_float (v_depart v) = None) vs then Inl ValueError
      else Inr (sort_key depart_key vs))"

definition car_vtype :: xml where
  "car_vtype = Element ''vType''
     [(''id'', ''car''), (''accel'', ''2.6''), (''decel'', ''4.5''), (''sigma'', ''0.5''),
      (''length'', ''5''), (''maxSpeed'', ''70''), (''color'', ''0,0,1'')] []"

definition highlighted_car_vtype :: xml where
  "highlighted_car_vtype = Element ''vType''
     [(''id'', ''highlighted_car''), (''accel'', ''2.6''), (''decel'', ''4.5''), (''sigma'', ''0.5''),
      (''length'', ''5''), (''maxSpeed'', ''70''), (''color'', ''1,0,0'')] []"

definition highlight_vehicle :: "string list \<Rightarrow> vehicle" where
  "highlight_vehicle edges =
     \<lparr>v_id = ''route_highlight'', v_type = ''highlighted_car'', v_depart = ''2'', v_edges = edges\<rparr>"

definition vehicle_element :: "vehicle \<Rightarrow> xml" where
  "vehicle_element v =
     Element ''vehicle'' [(''id'', v_id v), (''type'', v_type v), (''depart'', v_depart v)]
       [Element ''route'' [(''edges'', join '' '' (v_edges v))] []]"

definition initial_sampler :: "string list \<Rightarrow> sampler" where
  "initial_sampler edges = \<lparr>vehicles = [highlight_vehicle edges], added_vehicles = 0, attempts = 0\<rparr>"

definition creating_message :: "string list \<Rightarrow> string" where
  "creating_message valid_edges =
     ''Creating routes with '' @ str_nat (length valid_edges) @ '' valid edges''"

definition report_message :: "sampler \<Rightarrow> string" where
  "report_message s =
     ''Successfully added '' @ str_nat (added_vehicles s) @ '' random vehicles after '' @
     str_nat (attempts s) @ '' attempts''"

definition routes_document :: "vehicle list \<Rightarrow> xml" where
  "routes_document sorted_vehicles =
     Element ''routes'' [] ([car_vtype, highlighted_car_vtype] @ map vehicle_element sorted_vehicles)"

text \<open>
  \<^verbatim>\<open>
  def save_route_to_file(edges, valid_edges, net_file, output_file="../data/route.rou.xml"):
      print(f"Creating routes with {len(valid_edges)} valid edges")
      routes = create_document("routes")
      routes.addChild("vType", ...); routes.addChild("vType", ...)
      vehicles = []
      vehicles.append({"id": "route_highlight", "type": "highlighted_car",
                       "depart": "2", "edges": edges})
      num_random_vehicles = 50; added_vehicles = 0; max_attempts = 1000; attempts = 0
      while ...                                   # the loop above
      print(f"Successfully added {added_vehicles} random vehicles after {attempts} attempts")
      vehicles.sort(key=lambda x: float(x["depart"]))
      for v in vehicles:
          vehicle = routes.addChild("vehicle", attrs={"id": .., "type": .., "depart": ..})
          vehicle.addChild("route", attrs={"edges": " ".join(v["edges"])})
      with open(output_file, "w") as f:
          f.write(routes.toXML())
  \<close>
\<close>

definition save_route_to_file ::
  "ext \<Rightarrow> string list \<Rightarrow> string list \<Rightarrow> string \<Rightarrow> string \<Rightarrow> world \<Rightarrow> (exn + unit) \<times> world" where
  "save_route_to_file X edges valid_edges net_file output_file w =
     (let w1 = py_print (creating_message valid_edges) w in
      case sample_loop X valid_edges net_file (initial_sampler edges) w1 of
        (Some e, s, w2) \<Rightarrow> (Inl e, w2)
      | (None, s, w2) \<Rightarrow>
          (let w3 = py_print (report_message s) w2 in
           case sort_by_depart (vehicles s) of
             Inl e \<Rightarrow> (Inl e, w3)
           | Inr sorted_vehicles \<Rightarrow>
               (Inr (), w3\<lparr>files := (files w3)(output_file \<mapsto> routes_document sorted_vehicles)\<rparr>)))"

section \<open>is_valid_vehicle_edge and save_visualization_settings\<close>

definition is_valid_vehicle_edge :: "network \<Rightarrow> string \<Rightarrow> bool" where
  "is_valid_vehicle_edge net edge_id =
     (case getEdge net edge_id of
        None \<Rightarrow> False
      | Some e \<Rightarrow> list_ex (\<lambda>l. allows l ''passenger'') (getLanes e))"

definition selection_element :: "string \<Rightarrow> xml" where
  "selection_element e =
     Element ''selection'' [(''id'', e), (''color'', ''255,0,0''), (''width'', ''4'')] []"

definition settings_document :: "string list \<Rightarrow> xml" where
  "settings_document edges =
     Element ''viewsettings'' []
       [Element ''viewport'' [(''x'', ''0''), (''y'', ''0''), (''zoom'', ''100'')] [],
        Element ''scheme'' [(''name'', ''real world'')]
          [Element ''edges''
             [(''laneWidth'', ''2''), (''showLinkDecals'', ''true''), (''showRails'', ''true''),
              (''hideConnectors'', ''false'')]
             [Element ''colorScheme'' [(''name'', ''selection''), (''value'', ''0.7,0.7,0.7'')] [],
              Element ''selections'' [(''friendlyPos'', ''true'')] (map selection_element edges)]]]"

definition save_visualization_settings :: "string list \<Rightarrow> string \<Rightarrow> world \<Rightarrow> world" where
  "save_visualization_settings edges output_file w =
     w\<lparr>files := (files w)(output_file \<mapsto> settings_document edges)\<rparr>"

section \<open>find_nearest_edge\<close>

text \<open>
  \<^verbatim>\<open>
  def find_nearest_edge(net, x, y):
      radius = 0.1
      max_radius = 1000
      while radius < max_radius:
          edges = net.getNeighboringEdges(x, y, radius)
          if edges:
              edges.sort(key=lambda x: x[1])
              return edges[0][0].getID()
          radius *= 2
      return None
  \<close>
  \<open>radius_loop\<close> is the loop as written, from any radius: it does not return from a
  radius that is not positive when the network has no edge, so it is a partial function,
  \<open>None\<close> standing for a loop that does not return and \<open>Some None\<close> for the
  result \<open>None\<close>.

  From \<open>0.1\<close> the variable \<open>radius\<close> only ever holds \<open>0.1 * 2 ^ k\<close> after
  \<open>k\<close> doublings (doubling a binary float is exact). \<open>nearest_loop\<close> is the same
  loop with the number \<open>k\<close> of doublings as its state; it is total, and
  \<open>radius_loop_from_initial\<close> below shows that the loop as written, started at
  \<open>0.1\<close>, returns what it returns.
\<close>

definition initial_radius :: real where
  "initial_radius = 1 / 10"

definition max_radius :: real where
  "max_radius = 1000"

partial_function (option) radius_loop ::
  "network \<Rightarrow> pyfloat \<Rightarrow> pyfloat \<Rightarrow> real \<Rightarrow> string option option" where
  "radius_loop net x y radius =
     (if radius < max_radius then
        (let edges = getNeighboringEdges net x y radius in
         if edges \<noteq> [] then Some (Some (getID (fst (hd (sort_key snd edges)))))
         else radius_loop net x y (radius * 2))
      else Some None)"

definition radius_after :: "nat \<Rightarrow> real" where
  "radius_after k = initial_radius * 2 ^ k"

lemma radius_below_max: "radius_after k < max_radius \<longleftrightarrow> k < 14"
proof
  assume lt: "radius_after k < max_radius"
  show "k < 14"
  proof (rule ccontr)
    assume "\<not> k < 14"
    then have "(2::real) ^ 14 \<le> 2 ^ k"
      by (intro power_increasing) auto
    with lt show False
      by (simp add: radius_after_def initial_radius_def max_radius_def)
  qed
next
  assume "k < 14"
  then have "(2::real) ^ k \<le> 2 ^ 13"
    by (intro power_increasing) auto
  then show "radius_after k < max_radius"
    by (simp add: radius_after_def initial_radius_def max_radius_def)
qed

function nearest_loop :: "network \<Rightarrow> pyfloat \<Rightarrow> pyfloat \<Rightarrow> nat \<Rightarrow> string option" where
  "nearest_loop net x y k =
     (if radius_after k < max_radius then
        (let edges = getNeighboringEdges net x y (radius_after k) in
         if edges \<noteq> [] then Some (getID (fst (hd (sort_key snd edges))))
         else nearest_loop net x y (Suc k))
      else None)"
  by pat_completeness auto
termination
  by (relation "measure (\<lambda>(net, x, y, k). 14 - k)") (auto simp: radius_below_max)

declare nearest_loop.simps [simp del]

definition find_nearest_edge :: "network \<Rightarrow> pyfloat \<Rightarrow> pyfloat \<Rightarrow> string option" where
  "find_nearest_edge net x y = nearest_loop net x y 0"

section \<open>main\<close>

text \<open>
  The filter loop of \<open>main\<close> over \<open>network.getEdges()\<close>: a valid edge is appended to
  \<open>valid_edges\<close> and its row is printed.
\<close>

definition edge_row :: "edge \<Rightarrow> string" where
  "edge_row e =
     ljust 15 (getID e) @ '' ('' @ format_1f (fst (fromCoord e)) @ '','' @
     format_1f (snd (fromCoord e)) @ '')'' @ [CHR 0x09, CHR 0x09] @ ''('' @
     format_1f (fst (toCoord e)) @ '','' @ format_1f (snd (toCoord e)) @ '')''"

fun scan_edges :: "network \<Rightarrow> edge list \<Rightarrow> string list \<Rightarrow> world \<Rightarrow> string list \<times> world" where
  "scan_edges net [] valid_edges w = (valid_edges, w)"
| "scan_edges net (e # es) valid_edges w =
     (if is_valid_vehicle_edge net (getID e)
      then scan_edges net es (valid_edges @ [getID e]) (py_print (edge_row e) w)
      else scan_edges net es valid_edges w)"

text \<open>
  The block that \<open>main\<close> runs once for the start and once for the destination:
  \<^verbatim>\<open>
  start_input = input("Enter start X coordinate (or edge ID): ")
  try:
      start_x = float(start_input)
      start_y = float(input("Enter start Y coordinate: "))
      start_edge = find_nearest_edge(network, start_x, start_y)
  except ValueError:
      start_edge = start_input if start_input in valid_edges else None
  \<close>
\<close>

definition resolve_location ::
  "ext \<Rightarrow> network \<Rightarrow> string list \<Rightarrow> string \<Rightarrow> string \<Rightarrow> world \<Rightarrow> string option \<times> world" where
  "resolve_location X net valid_edges prompt_x prompt_y w =
     (let (location_input, w1) = py_input X prompt_x w in
      case py_float location_input of
        None \<Rightarrow> (if location_input \<in> set valid_edges then Some location_input else None, w1)
      | Some x \<Rightarrow>
          (let (y_input, w2) = py_input X prompt_y w1 in
           case py_float y_input of
             None \<Rightarrow> (if location_input \<in> set valid_edges then Some location_input else None, w2)
           | Some y \<Rightarrow> (find_nearest_edge net x y, w2)))"

definition sumo_gui_cmd :: "string \<Rightarrow> string list" where
  "sumo_gui_cmd net_file =
     [''sumo-gui'', ''-n'', net_file, ''-r'', ''../data/route.rou.xml'',
      ''--gui-settings-file'', ''../data/settings.xml'', ''--start'', ''--delay'', ''50'',
      ''--step-length'', ''0.1'', ''--begin'', ''0'', ''--end'', ''3600'',
      ''--window-size'', ''800,600'', ''--window-pos'', ''50,50'', ''--no-warnings'']"

text \<open>
  \<open>main\<close>, from the route request on: both edges are resolved.
\<close>

definition route_and_launch ::
  "ext \<Rightarrow> string \<Rightarrow> string list \<Rightarrow> string \<Rightarrow> string \<Rightarrow> world \<Rightarrow> (exn + unit) \<times> world" where
  "route_and_launch X net_file valid_edges start_edge end_edge w =
     (case find_route X net_file start_edge end_edge w of
        (Inl e, w1) \<Rightarrow> (Inl e, w1)
      | (Inr None, w1) \<Rightarrow>
          (Inr (), py_print (CHR 0x0A # ''No route found between selected locations'') w1)
      | (Inr (Some route), w1) \<Rightarrow>
          (if route \<noteq> [] then
             (let w2 = py_print (CHR 0x0A # ''Route found! Edges: '' @ join '' -> '' route) w1 in
              case save_route_to_file X route valid_edges net_file ''../data/route.rou.xml'' w2 of
                (Inl e, w3) \<Rightarrow> (Inl e, w3)
              | (Inr _, w3) \<Rightarrow>
                  (let w4 = save_visualization_settings route ''../data/settings.xml'' w3;
                       w5 = py_print (CHR 0x0A # ''Starting simulation...'') w4
                   in (Inr (), subprocess_run (sumo_gui_cmd net_file) w5)))
           else (Inr (), py_print (CHR 0x0A # ''No route found between selected locations'') w1)))"

text \<open>
  \<open>main\<close>. The network read by \<open>net.readNet(net_file)\<close> is the argument \<open>net\<close>.
  \<open>list_valid_edges\<close> is its first part, up to the request for input. The test
  \<open>if not start_edge\<close> holds for \<open>None\<close> and for the empty string.
\<close>

definition list_valid_edges :: "network \<Rightarrow> world \<Rightarrow> string list \<times> world" where
  "list_valid_edges net w =
     (let w1 = py_print (CHR 0x0A # ''Available edges and their coordinates:'') w;
          w2 = py_print (''ID'' @ [CHR 0x09, CHR 0x09] @ ''Start(x,y)'' @ [CHR 0x09, CHR 0x09] @
                         ''End(x,y)'') w1;
          w3 = py_print (replicate 50 CHR ''-'') w2;
          (valid_edges, w4) = scan_edges net (getEdges net) [] w3;
          w5 = py_print (CHR 0x0A # ''Found '' @ str_nat (length valid_edges) @
                         '' valid edges for routing'') w4
      in (valid_edges, py_print (CHR 0x0A # ''Please enter coordinates (or edge IDs):'') w5))"

definition start_prompts :: "string \<times> string" where
  "start_prompts = (''Enter start X coordinate (or edge ID): '', ''Enter start Y coordinate: '')"

definition destination_prompts :: "string \<times> string" where
  "destination_prompts =
     (''Enter destination X coordinate (or edge ID): '', ''Enter destination Y coordinate: '')"

definition main :: "ext \<Rightarrow> network \<Rightarrow> world \<Rightarrow> (exn + unit) \<times> world" where
  "main X net w =
     (let net_file = ''../data/test.net.xml'';
          (valid_edges, w1) = list_valid_edges net w;
          (start_edge, w2) =
             resolve_location X net valid_edges (fst start_prompts) (snd start_prompts) w1
      in case start_edge of
           None \<Rightarrow> (Inr (), py_print ''Error: Invalid start location'' w2)
         | Some start_id \<Rightarrow>
     (if start_id = [] then (Inr (), py_print ''Error: Invalid start location'' w2)
      else
     (let w3 = py_print (''Selected start edge: '' @ start_id) w2;
          (end_edge, w4) =
             resolve_location X net valid_edges (fst destination_prompts)
               (snd destination_prompts) w3
      in case end_edge of
           None \<Rightarrow> (Inr (), py_print ''Error: Invalid destination location'' w4)
         | Some end_id \<Rightarrow>
             (if end_id = [] then (Inr (), py_print ''Error: Invalid destination location'' w4)
              else route_and_launch X net_file valid_edges start_id end_id
                     (py_print (''Selected destination edge: '' @ end_id) w4)))))"

section \<open>What a run leaves behind\<close>

text \<open>
  \<open>untouched w w'\<close>: between the two worlds no file was written, nothing was launched, no
  routing session was opened or closed, \<open>traci\<close> was not called and \<open>sys.path\<close> was
  not changed. \<open>prompts_of\<close> are the prompts of \<open>input()\<close> on a console.
\<close>

definition untouched :: "world \<Rightarrow> world \<Rightarrow> bool" where
  "untouched w w' =
     (files w' = files w \<and> launched w' = launched w \<and> open_sessions w' = open_sessions w \<and>
      traci_log w' = traci_log w \<and> sys_path w' = sys_path w)"

definition prompts_of :: "out list \<Rightarrow> string list" where
  "prompts_of os = concat (map (\<lambda>item. case item of Prompt p \<Rightarrow> [p] | Print _ \<Rightarrow> []) os)"

text \<open>
  Reading a document back: the elements with a given tag, in document order, an attribute
  of an element, and the \<open>id\<close>s of the \<open>selection\<close> entries.
\<close>

fun elements_tagged :: "string \<Rightarrow> xml \<Rightarrow> xml list" where
  "elements_tagged t (Element n a cs) =
     (if n = t then [Element n a cs] else []) @ concat (map (elements_tagged t) cs)"

definition attribute :: "string \<Rightarrow> xml \<Rightarrow> string option" where
  "attribute name x = map_of (attrs x) name"

definition selection_ids :: "xml \<Rightarrow> string list" where
  "selection_ids doc = List.map_filter (attribute ''id'') (elements_tagged ''selection'' doc)"

text \<open>
  \<open>sampled\<close> is the state in which the sampling loop of \<open>save_route_to_file\<close> ends:
  its \<open>vehicles\<close> are the vehicles in the order of insertion. \<open>entry_ids\<close> and
  \<open>entry_departs\<close> read the identifiers and the numeric departure times of the vehicle
  entries of a scene document, from first to last.
\<close>

definition sampled :: "ext \<Rightarrow> string list \<Rightarrow> string list \<Rightarrow> string \<Rightarrow> world \<Rightarrow> sampler" where
  "sampled X edges valid_edges net_file w =
     fst (snd (sample_loop X valid_edges net_file (initial_sampler edges)
       (py_print (creating_message valid_edges) w)))"

definition entry_ids :: "xml \<Rightarrow> string list" where
  "entry_ids doc = List.map_filter (attribute ''id'') (elements_tagged ''vehicle'' doc)"

definition entry_departs :: "xml \<Rightarrow> real list" where
  "entry_departs doc =
     List.map_filter (\<lambda>x. Option.bind (attribute ''depart'' x) finite_float)
       (elements_tagged ''vehicle'' doc)"

text \<open>
  \<open>service_ok\<close>: \<open>SUMO_HOME\<close> is set and no call of \<open>traci\<close> raises, so that a
  route request answers with a route or with none.
\<close>

definition service_ok :: "ext \<Rightarrow> bool" where
  "service_ok X =
     (sumo_home X \<noteq> None \<and> (\<forall>c. start_raises X c = None) \<and>
      (\<forall>c a b. \<exists>r. findRoute_result X c a b = Inr r))"

text \<open>
  The invariant of the sampling loop: the counters are within their bounds, the list starts
  with the highlighted vehicle, the background vehicles are numbered in the order of their
  insertion and their departure times parse.
\<close>

definition sampler_inv :: "string list \<Rightarrow> sampler \<Rightarrow> bool" where
  "sampler_inv edges s =
     (added_vehicles s \<le> num_random_vehicles \<and> attempts s \<le> max_attempts \<and>
      added_vehicles s \<le> attempts s \<and>
      (\<exists>bg. vehicles s = highlight_vehicle edges # bg \<and>
         map v_id bg = map (\<lambda>i. ''random_vehicle_'' @ str_nat i) [0..<added_vehicles s] \<and>
         (\<forall>v \<in> set bg. finite_float (v_depart v) \<noteq> None)))"

text \<open>
  \<open>valid_edges_of\<close> is the list \<open>valid_edges\<close> that \<open>main\<close> builds.
  \<open>unresolvable net a b\<close> says of the line \<open>a\<close> typed at the first prompt of a
  location, and the line \<open>b\<close> typed at the second if there is one, that they name no
  location: \<open>a\<close> is not a number and not a valid edge (or \<open>a\<close> is a number,
  \<open>b\<close> is not, and \<open>a\<close> is not a valid edge), or both are numbers and no edge
  of the network lies within the radius ceiling of the point.
\<close>

definition valid_edges_of :: "network \<Rightarrow> string list" where
  "valid_edges_of net =
     map getID (filter (\<lambda>e. is_valid_vehicle_edge net (getID e)) (getEdges net))"

definition unresolvable :: "network \<Rightarrow> string \<Rightarrow> string \<Rightarrow> bool" where
  "unresolvable net a b =
     (case py_float a of
        None \<Rightarrow> a \<notin> set (valid_edges_of net)
      | Some x \<Rightarrow>
          (case py_float b of
             None \<Rightarrow> a \<notin> set (valid_edges_of net)
           | Some y \<Rightarrow> getNeighboringEdges net x y max_radius = []))"

text \<open>
  \<open>falsy e\<close> is the test \<open>not e\<close> of \<open>main\<close>. \<open>start_edge_of\<close> is the value
  of \<open>start_edge\<close> in a run of \<open>main\<close>; when it is an edge,
  \<open>at_destination_prompt\<close> is the world in which the destination is asked for and
  \<open>end_edge_of\<close> the value of \<open>end_edge\<close>.
\<close>

definition falsy :: "string option \<Rightarrow> bool" where
  "falsy e = (e = None \<or> e = Some [])"

definition start_resolution :: "ext \<Rightarrow> network \<Rightarrow> world \<Rightarrow> string option \<times> world" where
  "start_resolution X net w =
     resolve_location X net (valid_edges_of net) (fst start_prompts) (snd start_prompts)
       (snd (list_valid_edges net w))"

definition start_edge_of :: "ext \<Rightarrow> network \<Rightarrow> world \<Rightarrow> string option" where
  "start_edge_of X net w = fst (start_resolution X net w)"

definition at_destination_prompt :: "ext \<Rightarrow> network \<Rightarrow> world \<Rightarrow> world" where
  "at_destination_prompt X net w =
     (case start_resolution X net w of
        (Some s, w2) \<Rightarrow> py_print (''Selected start edge: '' @ s) w2
      | (None, w2) \<Rightarrow> w2)"

definition destination_resolution :: "ext \<Rightarrow> network \<Rightarrow> world \<Rightarrow> string option \<times> world" where
  "destination_resolution X net w =
     resolve_location X net (valid_edges_of net) (fst destination_prompts)
       (snd destination_prompts) (at_destination_prompt X net w)"

definition end_edge_of :: "ext \<Rightarrow> network \<Rightarrow> world \<Rightarrow> string option" where
  "end_edge_of X net w = fst (destination_resolution X net w)"

section \<open>Example inputs\<close>

text \<open>
  A network of north-south edges: \<open>column_distance\<close> is the distance of a point to an
  edge that it is level with, the horizontal offset.
\<close>

definition column_distance :: "edge \<Rightarrow> real \<Rightarrow> real \<Rightarrow> real" where
  "column_distance e x y = \<bar>x - fst (fromCoord e)\<bar>"

definition far_edge :: edge where
  "far_edge = \<lparr>getID = ''far'', getLanes = [\<lparr>allowed = [''passenger'']\<rparr>],
     fromCoord = (900, 0), toCoord = (900, 10)\<rparr>"

definition far_net :: network where
  "far_net = \<lparr>getEdges = [far_edge], shapeDistance = column_distance\<rparr>"

text \<open>
  A system where \<open>SUMO_HOME\<close> is set, the simulator starts, no route is ever found and
  the user types empty lines; the other examples vary it. \<open>world0\<close> is a fresh process.
\<close>

definition quiet_ext :: ext where
  "quiet_ext = \<lparr>sumo_home = Some ''/opt/sumo'', start_raises = (\<lambda>c. None),
     findRoute_result = (\<lambda>c a b. Inr []), random_index = (\<lambda>c. 0), random_unit = (\<lambda>c. 0),
     input_line = (\<lambda>c. [])\<rparr>"

definition world0 :: world where
  "world0 = \<lparr>clock = 0, console = [], sys_path = [], open_sessions = 0, traci_log = [],
     files = Map.empty, launched = []\<rparr>"

definition broken_query_ext :: ext where
  "broken_query_ext =
     quiet_ext\<lparr>findRoute_result := (\<lambda>c a b. Inl (TraCIException ''Edge is not known''))\<rparr>"

definition no_home_ext :: ext where
  "no_home_ext = quiet_ext\<lparr>sumo_home := None, input_line := (\<lambda>c. ''far'')\<rparr>"

definition no_home_lost_ext :: ext where
  "no_home_lost_ext = quiet_ext\<lparr>sumo_home := None, input_line := (\<lambda>c. ''nowhere'')\<rparr>"

text \<open>A system where every route request finds the route of its two edges.\<close>

definition busy_ext :: ext where
  "busy_ext = quiet_ext\<lparr>findRoute_result := (\<lambda>c a b. Inr [a, b]), random_index := (\<lambda>c. c),
     random_unit := (\<lambda>c. real c / 7)\<rparr>"

text \<open>
  Users who type a name that is no edge, or a valid start and then a point 1100 away from
  the only edge.
\<close>

definition lost_ext :: ext where
  "lost_ext = quiet_ext\<lparr>input_line := (\<lambda>c. ''nowhere'')\<rparr>"

definition offmap_ext :: ext where
  "offmap_ext =
     quiet_ext\<lparr>input_line := (\<lambda>c. if c = 0 then ''far'' else if c = 1 then ''2000'' else ''0'')\<rparr>"

text \<open>
  A network with a bus-only edge at the origin and a street 50 to the east of it; a user who
  types the origin as the start, and one who types the name of the bus-only edge.
\<close>

definition busway :: edge where
  "busway = \<lparr>getID = ''busway'', getLanes = [\<lparr>allowed = [''bus'']\<rparr>],
     fromCoord = (0, 0), toCoord = (0, 10)\<rparr>"

definition street :: edge where
  "street = \<lparr>getID = ''street'', getLanes = [\<lparr>allowed = [''passenger'', ''bus'']\<rparr>],
     fromCoord = (50, 0), toCoord = (50, 10)\<rparr>"

definition bus_net :: network where
  "bus_net = \<lparr>getEdges = [busway, street], shapeDistance = column_distance\<rparr>"

definition origin_ext :: ext where
  "origin_ext = quiet_ext\<lparr>input_line := (\<lambda>c. if c < 2 then ''0'' else ''nowhere'')\<rparr>"

definition busway_id_ext :: ext where
  "busway_id_ext = quiet_ext\<lparr>input_line := (\<lambda>c. ''busway'')\<rparr>"

section \<open>The nearest-edge search\<close>

lemma radius_after_Suc: "radius_after (Suc k) = radius_after k * 2"
  by (simp add: radius_after_def)

lemma radius_loop_doublings:
  "radius_loop net x y (radius_after k) = Some (nearest_loop net x y k)"
proof (induction net x y k rule: nearest_loop.induct)
  case (1 net x y k)
  show ?case
  proof (cases "radius_after k < max_radius \<and> getNeighboringEdges net x y (radius_after k) = []")
    case True
    then have "radius_loop net x y (radius_after k) = radius_loop net x y (radius_after (Suc k))"
      by (subst radius_loop.simps) (simp add: radius_after_Suc)
    also have "\<dots> = Some (nearest_loop net x y (Suc k))"
      using "1.IH" True by simp
    also have "nearest_loop net x y (Suc k) = nearest_loop net x y k"
      using True by (subst (2) nearest_loop.simps) simp
    finally show ?thesis .
  next
    case False
    then show ?thesis
      by (subst radius_loop.simps, subst nearest_loop.simps) (auto simp: Let_def)
  qed
qed

lemma radius_loop_from_initial:
  "radius_loop net x y initial_radius = Some (find_nearest_edge net x y)"
  using radius_loop_doublings[of net x y 0]
  by (simp add: radius_after_def find_nearest_edge_def)

lemma nearest_loop_None_iff:
  "nearest_loop net x y k = None \<longleftrightarrow>
     (\<forall>j. k \<le> j \<and> j < 14 \<longrightarrow> getNeighboringEdges net x y (radius_after j) = [])"
proof (induction net x y k rule: nearest_loop.induct)
  case (1 net x y k)
  show ?case
  proof (cases "k < 14")
    case False
    then show ?thesis
      by (subst nearest_loop.simps) (auto simp: radius_below_max)
  next
    case True
    show ?thesis
    proof (cases "getNeighboringEdges net x y (radius_after k) = []")
      case nonempty: False
      with True show ?thesis
        by (subst nearest_loop.simps) (auto simp: radius_below_max Let_def)
    next
      case empty: True
      have "nearest_loop net x y k = nearest_loop net x y (Suc k)"
        using True empty by (subst nearest_loop.simps) (simp add: radius_below_max)
      also have "\<dots> = None \<longleftrightarrow>
          (\<forall>j. Suc k \<le> j \<and> j < 14 \<longrightarrow> getNeighboringEdges net x y (radius_after j) = [])"
        using "1.IH" True empty by (simp add: radius_below_max)
      also have "\<dots> \<longleftrightarrow>
          (\<forall>j. k \<le> j \<and> j < 14 \<longrightarrow> getNeighboringEdges net x y (radius_after j) = [])"
        using empty by (metis Suc_leI le_neq_implies_less Suc_leD)
      finally show ?thesis .
    qed
  qed
qed

lemma neighbours_empty_iff:
  "getNeighboringEdges net (Finite x) (Finite y) r = [] \<longleftrightarrow>
     (\<forall>e \<in> set (getEdges net). r \<le> shapeDistance net e x y)"
  by (auto simp: getNeighboringEdges_def filter_empty_conv not_less)

lemma neighbours_not_finite:
  "(\<forall>a. x \<noteq> Finite a) \<or> (\<forall>b. y \<noteq> Finite b) \<Longrightarrow> getNeighboringEdges net x y r = []"
  by (cases x; cases y) (auto simp: getNeighboringEdges_def)

lemma neighbours_mono:
  assumes "getNeighboringEdges net x y r = []" and "r' \<le> r"
  shows "getNeighboringEdges net x y r' = []"
proof (cases "(\<exists>a. x = Finite a) \<and> (\<exists>b. y = Finite b)")
  case True
  then obtain a b where xy: "x = Finite a" "y = Finite b" by blast
  show ?thesis
    using assms unfolding xy neighbours_empty_iff by force
next
  case False
  then show ?thesis
    by (intro neighbours_not_finite) blast
qed

lemma radius_after_mono: "j \<le> k \<Longrightarrow> radius_after j \<le> radius_after k"
  by (simp add: radius_after_def initial_radius_def power_increasing)

lemma radius_after_13: "radius_after 13 = 4096 / 5"
  by (simp add: radius_after_def initial_radius_def)

lemma find_nearest_edge_None_iff:
  "find_nearest_edge net x y = None \<longleftrightarrow> getNeighboringEdges net x y (4096 / 5) = []"
proof -
  have "(\<forall>j. j < 14 \<longrightarrow> getNeighboringEdges net x y (radius_after j) = []) \<longleftrightarrow>
        getNeighboringEdges net x y (radius_after 13) = []"
  proof
    assume "\<forall>j. j < 14 \<longrightarrow> getNeighboringEdges net x y (radius_after j) = []"
    then show "getNeighboringEdges net x y (radius_after 13) = []" by simp
  next
    assume top: "getNeighboringEdges net x y (radius_after 13) = []"
    show "\<forall>j. j < 14 \<longrightarrow> getNeighboringEdges net x y (radius_after j) = []"
    proof (intro allI impI)
      fix j :: nat assume "j < 14"
      then have "radius_after j \<le> radius_after 13"
        by (intro radius_after_mono) simp
      with top show "getNeighboringEdges net x y (radius_after j) = []"
        by (rule neighbours_mono)
    qed
  qed
  then show ?thesis
    by (simp add: find_nearest_edge_def nearest_loop_None_iff radius_after_13)
qed

lemma hd_sort_key_min:
  assumes "es \<noteq> []"
  shows "hd (sort_key f es) \<in> set es \<and> (\<forall>q \<in> set es. f (hd (sort_key f es)) \<le> f q)"
proof -
  let ?s = "sort_key f es"
  from assms have ne: "?s \<noteq> []"
    by (metis length_sort length_0_conv)
  then obtain p ps where s: "?s = p # ps"
    by (cases ?s) auto
  have "sorted (map f ?s)" by simp
  with s have "\<forall>q \<in> set ps. f p \<le> f q" by simp
  moreover have "set ?s = set es" by simp
  ultimately show ?thesis using s by (metis hd_conv_nth list.sel(1) list.set_intros(1) order_refl set_ConsD)
qed

lemma nearest_loop_Some:
  "nearest_loop net x y k = Some i \<Longrightarrow>
     \<exists>j. k \<le> j \<and> j < 14 \<and> getNeighboringEdges net x y (radius_after j) \<noteq> [] \<and>
         i = getID (fst (hd (sort_key snd (getNeighboringEdges net x y (radius_after j)))))"
proof (induction net x y k rule: nearest_loop.induct)
  case (1 net x y k)
  from "1.prems" have k: "k < 14"
    by (subst (asm) nearest_loop.simps) (auto simp: radius_below_max split: if_splits)
  show ?case
  proof (cases "getNeighboringEdges net x y (radius_after k) = []")
    case True
    with k "1.prems" have "nearest_loop net x y (Suc k) = Some i"
      by (subst (asm) nearest_loop.simps) (simp add: radius_below_max)
    with "1.IH" k True obtain j where "Suc k \<le> j" "j < 14"
        "getNeighboringEdges net x y (radius_after j) \<noteq> []"
        "i = getID (fst (hd (sort_key snd (getNeighboringEdges net x y (radius_after j)))))"
      by (auto simp: radius_below_max)
    then show ?thesis by (intro exI[of _ j]) auto
  next
    case False
    with k "1.prems" show ?thesis
      by (subst (asm) nearest_loop.simps) (auto simp: radius_below_max Let_def intro!: exI[of _ k])
  qed
qed

lemma find_nearest_edge_not_finite:
  "(\<forall>a. x \<noteq> Finite a) \<or> (\<forall>b. y \<noteq> Finite b) \<Longrightarrow> find_nearest_edge net x y = None"
  unfolding find_nearest_edge_None_iff by (rule neighbours_not_finite)

lemma find_nearest_edge_Some:
  assumes "find_nearest_edge net (Finite x) (Finite y) = Some i"
  shows "\<exists>e \<in> set (getEdges net). getID e = i \<and> shapeDistance net e x y < 4096 / 5 \<and>
           (\<forall>e' \<in> set (getEdges net). shapeDistance net e x y \<le> shapeDistance net e' x y)"
proof -
  from assms obtain j where j: "j < 14"
      and ne: "getNeighboringEdges net (Finite x) (Finite y) (radius_after j) \<noteq> []"
      and i: "i = getID (fst (hd (sort_key snd
                (getNeighboringEdges net (Finite x) (Finite y) (radius_after j)))))"
    unfolding find_nearest_edge_def by (blast dest: nearest_loop_Some)
  let ?es = "getNeighboringEdges net (Finite x) (Finite y) (radius_after j)"
  let ?p = "hd (sort_key snd ?es)"
  from hd_sort_key_min[OF ne, of snd]
  have mem: "?p \<in> set ?es" and least: "\<forall>q \<in> set ?es. snd ?p \<le> snd q" by auto
  from mem have e: "fst ?p \<in> set (getEdges net)"
      and d: "snd ?p = shapeDistance net (fst ?p) x y" and lt: "snd ?p < radius_after j"
    by (auto simp: getNeighboringEdges_def)
  from j have "radius_after j \<le> radius_after 13"
    by (intro radius_after_mono) simp
  with lt have reach: "shapeDistance net (fst ?p) x y < 4096 / 5"
    by (simp add: d radius_after_13)
  have "shapeDistance net (fst ?p) x y \<le> shapeDistance net e' x y"
    if e': "e' \<in> set (getEdges net)" for e'
  proof (cases "shapeDistance net e' x y < radius_after j")
    case True
    with e' have "(e', shapeDistance net e' x y) \<in> set ?es"
      by (auto simp: getNeighboringEdges_def)
    with least d show ?thesis by force
  next
    case False
    with lt d show ?thesis by simp
  qed
  with e reach i show ?thesis by blast
qed

text \<open>
  What the search does. It asks at the radii \<open>0.1 * 2 ^ k\<close> below 1000, the largest of
  which is \<open>0.1 * 2 ^ 13 = 819.2\<close>. It always returns, and what the loop as written
  returns is \<open>find_nearest_edge\<close>. At a point with finite coordinates it returns no
  result exactly when no edge of the network is nearer than 819.2; when it returns an edge,
  that edge is one of the network, nearer than 819.2, and no edge of the network is nearer.
\<close>

theorem find_nearest_edge_reach:
  "radius_loop net (Finite x) (Finite y) initial_radius =
     Some (find_nearest_edge net (Finite x) (Finite y)) \<and>
   (find_nearest_edge net (Finite x) (Finite y) = None \<longleftrightarrow>
      (\<forall>e \<in> set (getEdges net). 4096 / 5 \<le> shapeDistance net e x y)) \<and>
   (\<forall>i. find_nearest_edge net (Finite x) (Finite y) = Some i \<longrightarrow>
      (\<exists>e \<in> set (getEdges net). getID e = i \<and> shapeDistance net e x y < 4096 / 5 \<and>
         (\<forall>e' \<in> set (getEdges net). shapeDistance net e x y \<le> shapeDistance net e' x y)))"
  using find_nearest_edge_None_iff[of net "Finite x" "Finite y"] find_nearest_edge_Some[of net x y]
  by (simp add: neighbours_empty_iff radius_loop_from_initial)

theorem find_nearest_edge_reach_witness:
  "find_nearest_edge far_net (Finite 2000) (Finite 0) = None \<and>
   find_nearest_edge far_net (Finite 100) (Finite 0) = Some ''far''"
proof -
  have a: "find_nearest_edge far_net (Finite 2000) (Finite 0) = None"
    using find_nearest_edge_reach[of far_net 2000 0]
    by (simp add: far_net_def far_edge_def column_distance_def)
  have "find_nearest_edge far_net (Finite 100) (Finite 0) \<noteq> None"
    using find_nearest_edge_reach[of far_net 100 0]
    by (simp add: far_net_def far_edge_def column_distance_def)
  then obtain i where i: "find_nearest_edge far_net (Finite 100) (Finite 0) = Some i" by auto
  with find_nearest_edge_reach[of far_net 100 0] have "i = ''far''"
    by (auto simp: far_net_def far_edge_def)
  with a i show ?thesis by simp
qed

text \<open>
  Claim C1: if an edge lies within the maximum radius of 1000 of the point, the search
  returns an edge. The source names 1000 the maximum search radius, and the code misses it:
  in \<open>far_net\<close> the only edge is at distance 900 from the origin, the library's query at
  the radius 1000 returns it, and \<open>find_nearest_edge\<close>, whose last query is at the
  radius 819.2, returns no result.
\<close>

theorem find_nearest_edge_misses_within_ceiling:
  "(\<exists>e \<in> set (getEdges far_net). shapeDistance far_net e 0 0 \<le> max_radius) \<and>
   getNeighboringEdges far_net (Finite 0) (Finite 0) max_radius = [(far_edge, 900)] \<and>
   find_nearest_edge far_net (Finite 0) (Finite 0) = None \<and>
   radius_loop far_net (Finite 0) (Finite 0) initial_radius = Some None"
  by (simp add: radius_loop_from_initial find_nearest_edge_None_iff neighbours_empty_iff
      getNeighboringEdges_def far_net_def far_edge_def column_distance_def max_radius_def)

section \<open>Frames: what the parts of main leave untouched\<close>

lemma untouched_refl: "untouched w w"
  by (simp add: untouched_def)

lemma untouched_trans: "untouched w w' \<Longrightarrow> untouched w' w'' \<Longrightarrow> untouched w w''"
  by (simp add: untouched_def)

lemma untouched_print: "untouched w (py_print s w)"
  by (simp add: untouched_def py_print_def)

lemma scan_edges_untouched:
  "scan_edges net es acc w = (ve, w') \<Longrightarrow> untouched w w' \<and> clock w' = clock w \<and>
     prompts_of (console w') = prompts_of (console w)"
proof (induction es arbitrary: acc w)
  case Nil
  then show ?case by (simp add: untouched_def)
next
  case (Cons e es)
  show ?case
  proof (cases "is_valid_vehicle_edge net (getID e)")
    case True
    with Cons.prems have "scan_edges net es (acc @ [getID e]) (py_print (edge_row e) w) = (ve, w')"
      by simp
    from Cons.IH[OF this] show ?thesis
      by (simp add: untouched_def py_print_def prompts_of_def)
  next
    case False
    with Cons.prems have "scan_edges net es acc w = (ve, w')" by simp
    from Cons.IH[OF this] show ?thesis .
  qed
qed

lemma scan_edges_valid:
  "fst (scan_edges net es acc w) =
     acc @ map getID (filter (\<lambda>e. is_valid_vehicle_edge net (getID e)) es)"
  by (induction es arbitrary: acc w) auto

lemma list_valid_edges_untouched:
  "list_valid_edges net w = (ve, w') \<Longrightarrow> untouched w w' \<and> clock w' = clock w \<and>
     prompts_of (console w') = prompts_of (console w)"
  by (auto simp: list_valid_edges_def Let_def untouched_def py_print_def prompts_of_def
      split: prod.splits dest!: scan_edges_untouched)

lemma list_valid_edges_valid:
  "fst (list_valid_edges net w) =
     map getID (filter (\<lambda>e. is_valid_vehicle_edge net (getID e)) (getEdges net))"
  using scan_edges_valid[of net "getEdges net" "[]"]
  by (simp add: list_valid_edges_def Let_def split: prod.splits) (metis fst_conv)

lemma resolve_location_untouched:
  "resolve_location X net ve px py w = (r, w') \<Longrightarrow> untouched w w'"
  by (auto simp: resolve_location_def py_input_def tick_def untouched_def Let_def
      split: option.splits prod.splits if_splits)

lemmas float_defs = py_float_def strip_def is_space_def unsigned_float_def not_e_def mantissa_def
  digit_part_def is_digit_def nat_of_digits_def digit_val_def exponent_def number_def
  inf_or_nan_def lower_letter_def negate_def finite_float_def to_float_def overflow_bound_def

lemma main_cases:
  assumes lv: "list_valid_edges net w = (ve, w1)"
      and rs: "resolve_location X net ve (fst start_prompts) (snd start_prompts) w1 = (s, w2)"
      and re: "resolve_location X net ve (fst destination_prompts) (snd destination_prompts)
                 (py_print (''Selected start edge: '' @ the s) w2) = (d, w4)"
  shows "main X net w =
     (if s = None \<or> s = Some [] then (Inr (), py_print ''Error: Invalid start location'' w2)
      else if d = None \<or> d = Some []
        then (Inr (), py_print ''Error: Invalid destination location'' w4)
      else route_and_launch X ''../data/test.net.xml'' ve (the s) (the d)
             (py_print (''Selected destination edge: '' @ the d) w4))"
  using assms by (auto simp: main_def Let_def split: option.splits)

lemma py_float_far: "py_float ''far'' = None"
  by (simp add: float_defs)

section \<open>The route requester\<close>

lemma find_route_sessions:
  "open_sessions (snd (find_route X net_file start_edge end_edge w)) = open_sessions w"
  by (simp add: find_route_def traci_start_def traci_findRoute_def traci_close_def tick_def Let_def
      split: option.splits sum.splits prod.splits)

lemma find_route_no_home:
  "sumo_home X = None \<Longrightarrow>
     find_route X net_file start_edge end_edge w = (Inl (SystemExit sumo_home_message), w)"
  by (simp add: find_route_def)

lemma route_and_launch_no_home:
  "sumo_home X = None \<Longrightarrow>
     route_and_launch X net_file ve a b w = (Inl (SystemExit sumo_home_message), w)"
  by (simp add: route_and_launch_def find_route_no_home)

text \<open>
  Claim C4. Whatever the oracles answer and whatever \<open>find_route\<close> returns or raises, it
  leaves as many sessions open as it found. Its calls to \<open>traci\<close> are none (it exited
  before), a start that failed and opened nothing, or a start, the route query and the close,
  in this order: a session that was opened is closed before the call is left, also when the
  route query raises.
\<close>

theorem find_route_closes_session:
  "open_sessions (snd (find_route X net_file start_edge end_edge w)) = open_sessions w \<and>
   (\<exists>new. traci_log (snd (find_route X net_file start_edge end_edge w)) = traci_log w @ new \<and>
      (new = [] \<or> new = [StartFailed] \<or>
       new = [Started [''sumo'', ''-n'', net_file, ''--no-step-log'', ''--no-warnings''],
              RouteQuery start_edge end_edge, Closed]))"
  by (simp add: find_route_def traci_start_def traci_findRoute_def traci_close_def tick_def Let_def
      split: option.splits sum.splits prod.splits)

theorem find_route_closes_session_witness:
  "fst (find_route broken_query_ext ''net.xml'' ''a'' ''b'' world0) =
     Inl (TraCIException ''Edge is not known'') \<and>
   traci_log (snd (find_route broken_query_ext ''net.xml'' ''a'' ''b'' world0)) =
     [Started [''sumo'', ''-n'', ''net.xml'', ''--no-step-log'', ''--no-warnings''],
      RouteQuery ''a'' ''b'', Closed] \<and>
   open_sessions (snd (find_route broken_query_ext ''net.xml'' ''a'' ''b'' world0)) = 0"
proof -
  have "open_sessions (snd (find_route broken_query_ext ''net.xml'' ''a'' ''b'' world0)) =
        open_sessions world0"
    using find_route_closes_session[of broken_query_ext "''net.xml''" "''a''" "''b''" world0]
    by blast
  then show ?thesis
    by (simp add: find_route_def traci_start_def traci_findRoute_def traci_close_def tick_def
        Let_def broken_query_ext_def quiet_ext_def world0_def)
qed

section \<open>The visualization settings\<close>

lemma selections_of_map:
  "concat (map (elements_tagged ''selection'' \<circ> selection_element) edges) =
     map selection_element edges"
  by (induction edges) (simp_all add: selection_element_def)

lemma elements_tagged_settings:
  "elements_tagged ''selection'' (settings_document edges) = map selection_element edges"
  by (simp add: settings_document_def selections_of_map)

lemma selection_ids_settings: "selection_ids (settings_document edges) = edges"
  by (induction edges)
    (simp_all add: selection_ids_def elements_tagged_settings attribute_def
      selection_element_def)

text \<open>
  Claim C3, as amended. The document written by \<open>save_visualization_settings\<close> has
  one \<open>selection\<close> entry for each position of the route, in route order, and nothing
  else with that tag: the list of the selection ids is the route. So the ids selected are
  the ids of the route, and an id is selected as often as the route has it: exactly once
  when the route visits no edge twice.
\<close>

theorem selections_follow_route:
  "files (save_visualization_settings edges output_file w) output_file =
     Some (settings_document edges) \<and>
   elements_tagged ''selection'' (settings_document edges) = map selection_element edges \<and>
   selection_ids (settings_document edges) = edges \<and>
   set (selection_ids (settings_document edges)) = set edges \<and>
   count_list (selection_ids (settings_document edges)) e = count_list edges e \<and>
   (distinct (selection_ids (settings_document edges)) \<longleftrightarrow> distinct edges)"
  by (simp add: save_visualization_settings_def elements_tagged_settings selection_ids_settings)

theorem selections_follow_route_witness:
  "selection_ids (settings_document [''A'', ''B'', ''C'']) = [''A'', ''B'', ''C''] \<and>
   distinct (selection_ids (settings_document [''A'', ''B'', ''C'']))"
  using selections_follow_route[of "[''A'', ''B'', ''C'']" "''../data/settings.xml''" world0 "''A''"]
  by simp

text \<open>
  Claim C3 as stated fails on a route that visits an edge twice: the function does not
  remove duplicates, and the edge is selected twice.
\<close>

theorem repeated_edge_selected_twice:
  "files (save_visualization_settings [''A'', ''B'', ''A''] ''../data/settings.xml'' world0)
     ''../data/settings.xml'' = Some (settings_document [''A'', ''B'', ''A'']) \<and>
   count_list (selection_ids (settings_document [''A'', ''B'', ''A''])) ''A'' = 2 \<and>
   \<not> distinct (selection_ids (settings_document [''A'', ''B'', ''A'']))"
  by (simp add: save_visualization_settings_def selection_ids_settings)

section \<open>Decimal strings: what is written parses back\<close>

lemma digit_cases:
  "d < 10 \<Longrightarrow> d = 0 \<or> d = 1 \<or> d = 2 \<or> d = 3 \<or> d = 4 \<or> d = 5 \<or> d = 6 \<or> d = 7 \<or> d = 8 \<or> d = (9::nat)"
  by arith

lemma digit_val_digit_char: "d < 10 \<Longrightarrow> digit_val (digit_char d) = d"
  using digit_cases[of d] by (auto simp: digit_val_def digit_char_def)

lemma is_digit_digit_char: "d < 10 \<Longrightarrow> is_digit (digit_char d)"
  using digit_cases[of d] by (auto simp: is_digit_def digit_char_def)

lemma nat_of_digits_snoc: "nat_of_digits (s @ [c]) = 10 * nat_of_digits s + digit_val c"
  by (simp add: nat_of_digits_def)

lemma nat_of_digits_str_nat: "nat_of_digits (str_nat n) = n"
proof (induction n rule: str_nat.induct)
  case (1 n)
  show ?case
  proof (cases "n < 10")
    case True
    then show ?thesis
      by (subst str_nat.simps) (simp add: nat_of_digits_def digit_val_digit_char)
  next
    case False
    with "1.IH" show ?thesis
      by (subst str_nat.simps) (simp add: nat_of_digits_snoc digit_val_digit_char)
  qed
qed

lemma str_nat_inj: "str_nat m = str_nat n \<Longrightarrow> m = n"
  by (metis nat_of_digits_str_nat)

lemma str_nat_digits: "list_all is_digit (str_nat n)"
proof (induction n rule: str_nat.induct)
  case (1 n)
  show ?case
  proof (cases "n < 10")
    case True
    then show ?thesis
      by (subst str_nat.simps) (simp add: is_digit_digit_char)
  next
    case False
    with "1.IH" show ?thesis
      by (subst str_nat.simps) (simp add: is_digit_digit_char)
  qed
qed

lemma str_nat_nonempty: "str_nat n \<noteq> []"
  by (subst str_nat.simps) simp

lemma is_digit_plain:
  "is_digit c \<Longrightarrow> \<not> is_space c \<and> not_e c \<and> c \<noteq> CHR ''-'' \<and> c \<noteq> CHR ''+'' \<and> c \<noteq> CHR ''.'' \<and>
     c \<noteq> CHR ''_''"
  by (auto simp: is_digit_def is_space_def not_e_def)

lemma is_digit_no_letter:
  "is_digit c \<Longrightarrow> lower_letter c = c \<and> c \<noteq> CHR ''i'' \<and> c \<noteq> CHR ''n''"
  by (auto simp: is_digit_def lower_letter_def)

lemma inf_or_nan_digit: "is_digit c \<Longrightarrow> inf_or_nan (c # r) = None"
  using is_digit_no_letter[of c] by (auto simp: inf_or_nan_def)

lemma underscores_ok_none:
  "CHR ''_'' \<notin> set s \<Longrightarrow> prev \<noteq> CHR ''_'' \<Longrightarrow> underscores_ok prev s"
  by (induction s arbitrary: prev) auto

lemma filter_no_underscore: "CHR ''_'' \<notin> set s \<Longrightarrow> filter (\<lambda>c. c \<noteq> CHR ''_'') s = s"
  by (induction s) auto

lemma strip_id: "list_all (\<lambda>c. \<not> is_space c) s \<Longrightarrow> strip s = s"
proof -
  assume a: "list_all (\<lambda>c. \<not> is_space c) s"
  then have "dropWhile is_space s = s"
    by (cases s) auto
  moreover from a have "dropWhile is_space (rev s) = rev s"
    by (cases "rev s") (auto simp: list_all_iff dest: arg_cong[where f=set])
  ultimately show ?thesis by (simp add: strip_def)
qed

lemma mantissa_decimal_body: "mantissa (decimal_body k) = Some (real k / 10)"
proof -
  let ?ip = "str_nat (k div 10)"
  let ?d = "digit_char (k mod 10)"
  have dig: "list_all is_digit ?ip" by (rule str_nat_digits)
  then have nodot: "\<forall>c \<in> set ?ip. c \<noteq> CHR ''.''"
    by (auto simp: list_all_iff dest: is_digit_plain)
  have tw: "takeWhile (\<lambda>c. c \<noteq> CHR ''.'') (decimal_body k) = ?ip"
    using nodot by (simp add: decimal_body_def takeWhile_append2)
  have dw: "dropWhile (\<lambda>c. c \<noteq> CHR ''.'') (decimal_body k) = CHR ''.'' # [?d]"
    using nodot by (simp add: decimal_body_def dropWhile_append2)
  have d: "is_digit ?d" by (simp add: is_digit_digit_char)
  have "real (k div 10) + real (k mod 10) / 10 = real k / 10"
  proof -
    have "real k = real (10 * (k div 10) + k mod 10)" by simp
    also have "\<dots> = 10 * real (k div 10) + real (k mod 10)"
      by (simp only: of_nat_add of_nat_mult of_nat_numeral)
    finally show ?thesis by simp
  qed
  moreover have "nat_of_digits [?d] = k mod 10"
    by (simp add: nat_of_digits_def digit_val_digit_char)
  ultimately show ?thesis
    unfolding mantissa_def tw dw using dig d
    by (simp add: nat_of_digits_str_nat)
qed

lemma decimal_body_plain:
  "c \<in> set (decimal_body k) \<Longrightarrow> \<not> is_space c \<and> not_e c \<and> c \<noteq> CHR ''_''"
proof -
  assume "c \<in> set (decimal_body k)"
  then consider "c \<in> set (str_nat (k div 10))" | "c = CHR ''.''" | "c = digit_char (k mod 10)"
    by (auto simp: decimal_body_def)
  then show ?thesis
  proof cases
    case 1
    with str_nat_digits[of "k div 10"] show ?thesis
      by (auto simp: list_all_iff dest: is_digit_plain)
  next
    case 2
    then show ?thesis by (simp add: is_space_def not_e_def)
  next
    case 3
    then show ?thesis
      using is_digit_plain[OF is_digit_digit_char[of "k mod 10"]] by simp
  qed
qed

lemma unsigned_float_decimal_body: "unsigned_float (decimal_body k) = Some (real k / 10)"
proof -
  have tw: "takeWhile not_e (decimal_body k) = decimal_body k"
    by (simp add: takeWhile_eq_all_conv decimal_body_plain)
  have dw: "dropWhile not_e (decimal_body k) = []"
    by (simp add: dropWhile_eq_Nil_conv decimal_body_plain)
  show ?thesis
    unfolding unsigned_float_def Let_def tw dw by (simp add: mantissa_decimal_body)
qed

lemma decimal_body_hd:
  "\<exists>c r. decimal_body k = c # r \<and> is_digit c"
proof -
  obtain c r where cr: "str_nat (k div 10) = c # r"
    using str_nat_nonempty[of "k div 10"] by (cases "str_nat (k div 10)") auto
  with str_nat_digits[of "k div 10"] have "is_digit c" by simp
  with cr show ?thesis
    by (auto simp: decimal_body_def)
qed

lemma no_overflow_2000: "k \<le> 2000 \<Longrightarrow> to_float (real k / 10) = Finite (real k / 10)"
proof -
  assume "k \<le> 2000"
  then have "real k / 10 \<le> 200" by simp
  moreover have "(200::real) < overflow_bound"
    by (simp add: overflow_bound_def)
  ultimately show ?thesis by (simp add: to_float_def)
qed

lemma number_decimal_body:
  "k \<le> 2000 \<Longrightarrow> number (decimal_body k) = Some (Finite (real k / 10))"
proof -
  assume k: "k \<le> 2000"
  obtain c r where "decimal_body k = c # r" "is_digit c"
    using decimal_body_hd by blast
  then have "inf_or_nan (decimal_body k) = None"
    by (simp add: inf_or_nan_digit)
  then show ?thesis
    by (simp add: number_def unsigned_float_decimal_body no_overflow_2000[OF k])
qed

lemma decimal_body_no_underscore: "CHR ''_'' \<notin> set (decimal_body k)"
  using decimal_body_plain[of "CHR ''_''" k] by blast

lemma py_float_decimal_body:
  "k \<le> 2000 \<Longrightarrow> py_float (decimal_body k) = Some (Finite (real k / 10))"
proof -
  assume k: "k \<le> 2000"
  have s: "strip (decimal_body k) = decimal_body k"
    by (rule strip_id) (simp add: list_all_iff decimal_body_plain)
  have u: "underscores_ok (CHR 0x00) (decimal_body k)"
    by (rule underscores_ok_none[OF decimal_body_no_underscore]) simp
  have f: "filter (\<lambda>c. c \<noteq> CHR ''_'') (decimal_body k) = decimal_body k"
    by (rule filter_no_underscore[OF decimal_body_no_underscore])
  obtain c r where cr: "decimal_body k = c # r" "is_digit c"
    using decimal_body_hd by blast
  then have sign: "c \<noteq> CHR ''-''" "c \<noteq> CHR ''+''"
    by (auto dest: is_digit_plain)
  have "number (c # r) = Some (Finite (real k / 10))"
    using number_decimal_body[OF k] cr by simp
  then show ?thesis
    unfolding py_float_def Let_def s f using u cr(1) sign by simp
qed

lemma py_float_minus_decimal_body:
  "k \<le> 2000 \<Longrightarrow> py_float (CHR ''-'' # decimal_body k) = Some (Finite (- (real k / 10)))"
proof -
  assume k: "k \<le> 2000"
  have "\<not> is_space CHR ''-''" by (simp add: is_space_def)
  then have s: "strip (CHR ''-'' # decimal_body k) = CHR ''-'' # decimal_body k"
    by (intro strip_id) (simp add: list_all_iff decimal_body_plain)
  have no: "CHR ''_'' \<notin> set (CHR ''-'' # decimal_body k)"
    using decimal_body_no_underscore by simp
  have u: "underscores_ok (CHR 0x00) (CHR ''-'' # decimal_body k)"
    by (rule underscores_ok_none[OF no]) simp
  have f: "filter (\<lambda>c. c \<noteq> CHR ''_'') (CHR ''-'' # decimal_body k) = CHR ''-'' # decimal_body k"
    by (rule filter_no_underscore[OF no])
  show ?thesis
    unfolding py_float_def Let_def s f using u
    by (simp add: number_decimal_body[OF k] negate_def)
qed

lemma round_half_even_le: "x \<le> of_int n \<Longrightarrow> round_half_even x \<le> n"
proof -
  assume x: "x \<le> of_int n"
  then have f: "\<lfloor>x\<rfloor> \<le> n" by (simp add: floor_le_iff)
  show ?thesis
  proof (cases "\<lfloor>x\<rfloor> = n")
    case True
    with x have "x - of_int \<lfloor>x\<rfloor> \<le> 0" by simp
    then show ?thesis
      using True by (simp add: round_half_even_def Let_def)
  next
    case False
    with f have "\<lfloor>x\<rfloor> + 1 \<le> n" by simp
    then show ?thesis
      by (auto simp: round_half_even_def Let_def)
  qed
qed

lemma format_1f_parses:
  assumes "\<bar>t\<bar> \<le> 200"
  shows "finite_float (format_1f t) \<noteq> None"
proof -
  from assms have "\<bar>t\<bar> * 10 \<le> of_int 2000" by simp
  then have "round_half_even (\<bar>t\<bar> * 10) \<le> 2000" by (rule round_half_even_le)
  then have k: "nat (round_half_even (\<bar>t\<bar> * 10)) \<le> 2000" by simp
  define k where "k = nat (round_half_even (\<bar>t\<bar> * 10))"
  have f: "format_1f t = (if t < 0 then CHR ''-'' # decimal_body k else decimal_body k)"
    unfolding format_1f_def k_def by simp
  from k have "k \<le> 2000" by (simp add: k_def)
  then have "finite_float (format_1f t) =
      Some (if t < 0 then - (real k / 10) else real k / 10)"
    unfolding f
    by (simp add: finite_float_def py_float_decimal_body py_float_minus_decimal_body)
  then show ?thesis by simp
qed

lemma py_float_2: "py_float ''2'' = Some (Finite 2)"
  by (simp add: float_defs)

lemma finite_float_2: "finite_float ''2'' = Some 2"
  by (simp add: finite_float_def py_float_2)

lemma finite_float_parses: "finite_float s \<noteq> None \<Longrightarrow> py_float s \<noteq> None"
  by (auto simp: finite_float_def split: option.splits)

section \<open>The sampling loop\<close>

lemma find_route_frame:
  "find_route X net_file a b w = (r, w') \<Longrightarrow>
     files w' = files w \<and> launched w' = launched w \<and> open_sessions w' = open_sessions w \<and>
     console w' = console w"
  by (auto simp: find_route_def traci_start_def traci_findRoute_def traci_close_def tick_def Let_def
      split: option.splits sum.splits prod.splits if_splits)

lemma find_route_ok:
  "service_ok X \<Longrightarrow> \<exists>r w'. find_route X net_file a b w = (Inr r, w')"
proof -
  assume ok: "service_ok X"
  then obtain home where home: "sumo_home X = Some home"
    by (auto simp: service_ok_def)
  from ok have start: "start_raises X c = None" for c
    by (simp add: service_ok_def)
  from ok obtain r where "findRoute_result X (Suc (clock w)) a b = Inr r"
    unfolding service_ok_def by blast
  then show ?thesis
    by (simp add: find_route_def home traci_start_def start traci_findRoute_def tick_def Let_def)
qed

lemma sample_step_shape:
  assumes st: "sample_step X valid_edges net_file s w = (Inr s', w')"
  shows "attempts s' = Suc (attempts s) \<and>
     (added_vehicles s' = added_vehicles s \<and> vehicles s' = vehicles s \<or>
      added_vehicles s' = Suc (added_vehicles s) \<and>
      (\<exists>t r. 0 \<le> t \<and> t < 200 \<and> vehicles s' = vehicles s @
         [\<lparr>v_id = ''random_vehicle_'' @ str_nat (added_vehicles s), v_type = ''car'',
           v_depart = format_1f t, v_edges = r\<rparr>]))"
proof -
  obtain r1 v1 where c1: "random_choice X valid_edges w = (r1, v1)"
    by (cases "random_choice X valid_edges w")
  obtain r2 v2 where c2: "random_choice X valid_edges v1 = (r2, v2)"
    by (cases "random_choice X valid_edges v1")
  from st c1 obtain a where a: "r1 = Inr a"
    by (cases r1) (auto simp: sample_step_def)
  from st c1 c2 a obtain b where b: "r2 = Inr b"
    by (cases r2) (auto simp: sample_step_def)
  obtain r3 v3 where c3: "find_route X net_file a b v2 = (r3, v3)"
    by (cases "find_route X net_file a b v2")
  from st c1 c2 c3 a b obtain r where r: "r3 = Inr r"
    by (cases r3) (auto simp: sample_step_def)
  show ?thesis
  proof (cases "\<exists>es. r = Some es \<and> es \<noteq> []")
    case False
    with st c1 c2 c3 a b r show ?thesis
      by (cases r) (auto simp: sample_step_def skip_attempt_def)
  next
    case True
    then obtain es where es: "r = Some es" "es \<noteq> []" by blast
    let ?t = "0 + (200 - 0) * frac (random_unit X (clock v3))"
    have range: "0 \<le> ?t" "?t < 200"
      using frac_ge_0[of "random_unit X (clock v3)"] frac_lt_1[of "random_unit X (clock v3)"]
      by simp_all
    from st c1 c2 c3 a b r es
    have "attempts s' = Suc (attempts s)" "added_vehicles s' = Suc (added_vehicles s)"
      "vehicles s' = vehicles s @
         [\<lparr>v_id = ''random_vehicle_'' @ str_nat (added_vehicles s), v_type = ''car'',
           v_depart = format_1f ?t, v_edges = es\<rparr>]"
      by (auto simp: sample_step_def skip_attempt_def random_uniform_def Let_def)
    with range show ?thesis by blast
  qed
qed

lemma random_choice_frame:
  "random_choice X xs w = (r, w') \<Longrightarrow>
     files w' = files w \<and> launched w' = launched w \<and> open_sessions w' = open_sessions w \<and>
     console w' = console w"
  by (auto simp: random_choice_def tick_def split: if_splits)

lemma sample_step_frame:
  assumes "sample_step X valid_edges net_file s w = (r, w')"
  shows "files w' = files w \<and> launched w' = launched w \<and> open_sessions w' = open_sessions w"
proof -
  obtain r1 w1 where c1: "random_choice X valid_edges w = (r1, w1)"
    by (cases "random_choice X valid_edges w")
  obtain r2 w2 where c2: "random_choice X valid_edges w1 = (r2, w2)"
    by (cases "random_choice X valid_edges w1")
  note f1 = random_choice_frame[OF c1] and f2 = random_choice_frame[OF c2]
  show ?thesis
  proof (cases r1)
    case (Inl e)
    with assms c1 f1 show ?thesis by (auto simp: sample_step_def)
  next
    case a: (Inr a)
    show ?thesis
    proof (cases r2)
      case (Inl e)
      with assms c1 c2 a f1 f2 show ?thesis by (auto simp: sample_step_def)
    next
      case b: (Inr b)
      obtain r3 w3 where c3: "find_route X net_file a b w2 = (r3, w3)"
        by (cases "find_route X net_file a b w2")
      note f3 = find_route_frame[OF c3]
      from assms c1 c2 c3 a b f1 f2 f3 show ?thesis
        by (auto simp: sample_step_def random_uniform_def py_print_def tick_def Let_def
            split: sum.splits option.splits if_splits prod.splits)
    qed
  qed
qed

lemma sample_step_ok:
  assumes "valid_edges \<noteq> []" and "service_ok X"
  shows "\<exists>s' w'. sample_step X valid_edges net_file s w = (Inr s', w')"
proof -
  from assms(1) obtain a w1 where c1: "random_choice X valid_edges w = (Inr a, w1)"
    by (simp add: random_choice_def)
  from assms(1) obtain b w2 where c2: "random_choice X valid_edges w1 = (Inr b, w2)"
    by (simp add: random_choice_def)
  from find_route_ok[OF assms(2)] obtain r w3 where
    c3: "find_route X net_file a b w2 = (Inr r, w3)" by blast
  show ?thesis
    by (cases r) (auto simp: sample_step_def c1 c2 c3 random_uniform_def Let_def)
qed

lemma sample_loop_rule:
  assumes run: "sample_loop X valid_edges net_file s w = (r, s', w')"
      and init: "P s w"
      and step: "\<And>s w s1 w1. P s w \<Longrightarrow> added_vehicles s < num_random_vehicles \<Longrightarrow>
                   attempts s < max_attempts \<Longrightarrow>
                   sample_step X valid_edges net_file s w = (Inr s1, w1) \<Longrightarrow> P s1 w1"
      and raised: "\<And>s w e w1. P s w \<Longrightarrow> added_vehicles s < num_random_vehicles \<Longrightarrow>
                   attempts s < max_attempts \<Longrightarrow>
                   sample_step X valid_edges net_file s w = (Inl e, w1) \<Longrightarrow> P s w1"
  shows "P s' w'"
  using assms
proof (induction X valid_edges net_file s w rule: sample_loop.induct)
  case (1 X valid_edges net_file s w)
  note run = "1.prems"(1) and init = "1.prems"(2) and step = "1.prems"(3)
    and raised = "1.prems"(4)
  show ?case
  proof (cases "added_vehicles s < num_random_vehicles \<and> attempts s < max_attempts")
    case False
    with run init show ?thesis
      by (subst (asm) sample_loop.simps) auto
  next
    case True
    obtain q w1 where st: "sample_step X valid_edges net_file s w = (q, w1)"
      by (cases "sample_step X valid_edges net_file s w")
    show ?thesis
    proof (cases q)
      case (Inl e)
      with True st run have "s' = s" "w' = w1"
        by (subst (asm) sample_loop.simps; simp)+
      moreover have "P s w1"
        using raised[OF init _ _ st[unfolded Inl]] True by simp
      ultimately show ?thesis by simp
    next
      case (Inr s1)
      with True st run have next_run: "sample_loop X valid_edges net_file s1 w1 = (r, s', w')"
        by (subst (asm) sample_loop.simps) simp
      have "P s1 w1"
        using step[OF init _ _ st[unfolded Inr]] True by simp
      with "1.IH"[OF True st[symmetric] _ next_run] Inr step raised show ?thesis
        by blast
    qed
  qed
qed

section \<open>The scene generator\<close>

lemma sampler_inv_init: "sampler_inv edges (initial_sampler edges)"
  by (simp add: sampler_inv_def initial_sampler_def)

lemma sampler_inv_step:
  assumes inv: "sampler_inv edges s"
      and room: "added_vehicles s < num_random_vehicles" "attempts s < max_attempts"
      and st: "sample_step X valid_edges net_file s w = (Inr s1, w1)"
  shows "sampler_inv edges s1"
proof -
  from inv obtain bg where bg: "vehicles s = highlight_vehicle edges # bg"
      "map v_id bg = map (\<lambda>i. ''random_vehicle_'' @ str_nat i) [0..<added_vehicles s]"
      "\<forall>v \<in> set bg. finite_float (v_depart v) \<noteq> None"
      and le: "added_vehicles s \<le> attempts s"
    by (auto simp: sampler_inv_def)
  from sample_step_shape[OF st] have att: "attempts s1 = Suc (attempts s)" by simp
  from sample_step_shape[OF st] consider
      (skip) "added_vehicles s1 = added_vehicles s" "vehicles s1 = vehicles s"
    | (add) t r where "0 \<le> t" "t < 200" "added_vehicles s1 = Suc (added_vehicles s)"
        "vehicles s1 = vehicles s @
           [\<lparr>v_id = ''random_vehicle_'' @ str_nat (added_vehicles s), v_type = ''car'',
             v_depart = format_1f t, v_edges = r\<rparr>]"
    by blast
  then show ?thesis
  proof cases
    case skip
    with bg le att room show ?thesis
      by (auto simp: sampler_inv_def)
  next
    case add
    let ?v = "\<lparr>v_id = ''random_vehicle_'' @ str_nat (added_vehicles s), v_type = ''car'',
               v_depart = format_1f t, v_edges = r\<rparr>"
    have "vehicles s1 = highlight_vehicle edges # (bg @ [?v])"
      using add bg by simp
    moreover have "map v_id (bg @ [?v]) =
        map (\<lambda>i. ''random_vehicle_'' @ str_nat i) [0..<added_vehicles s1]"
      using add bg by simp
    moreover have "\<forall>v \<in> set (bg @ [?v]). finite_float (v_depart v) \<noteq> None"
      using bg format_1f_parses[of t] add(1,2) by auto
    ultimately show ?thesis
      using add le att room unfolding sampler_inv_def by (intro conjI exI[of _ "bg @ [?v]"]) auto
  qed
qed

lemma sample_loop_inv:
  assumes "sample_loop X valid_edges net_file (initial_sampler edges) w = (r, s, w')"
  shows "sampler_inv edges s"
  by (rule sample_loop_rule[OF assms, where P = "\<lambda>s w. sampler_inv edges s"])
    (auto intro: sampler_inv_init sampler_inv_step)

lemma sample_loop_frame:
  assumes "sample_loop X valid_edges net_file s w = (r, s', w')"
  shows "files w' = files w \<and> launched w' = launched w \<and> open_sessions w' = open_sessions w"
  by (rule sample_loop_rule[OF assms, where
        P = "\<lambda>s v. files v = files w \<and> launched v = launched w \<and> open_sessions v = open_sessions w"])
    (auto dest: sample_step_frame)

lemma sample_loop_stops:
  "\<not> (added_vehicles s < num_random_vehicles \<and> attempts s < max_attempts) \<Longrightarrow>
     sample_loop X valid_edges net_file s w = (None, s, w)"
  by (subst sample_loop.simps) auto

lemma sample_loop_exit:
  "sample_loop X valid_edges net_file s w = (None, s', w') \<Longrightarrow>
     \<not> (added_vehicles s' < num_random_vehicles \<and> attempts s' < max_attempts)"
proof (induction X valid_edges net_file s w rule: sample_loop.induct)
  case (1 X valid_edges net_file s w)
  show ?case
  proof (cases "added_vehicles s < num_random_vehicles \<and> attempts s < max_attempts")
    case False
    with "1.prems" show ?thesis
      by (subst (asm) sample_loop.simps) auto
  next
    case True
    obtain q w1 where st: "sample_step X valid_edges net_file s w = (q, w1)"
      by (cases "sample_step X valid_edges net_file s w")
    show ?thesis
    proof (cases q)
      case (Inl e)
      with True st "1.prems" show ?thesis
        by (subst (asm) sample_loop.simps) simp
    next
      case (Inr s1)
      with True st "1.prems" have "sample_loop X valid_edges net_file s1 w1 = (None, s', w')"
        by (subst (asm) sample_loop.simps) simp
      with "1.IH"[OF True st[symmetric]] Inr show ?thesis by blast
    qed
  qed
qed

lemma sample_loop_ok:
  assumes "valid_edges \<noteq> []" and "service_ok X"
  shows "fst (sample_loop X valid_edges net_file s w) = None"
  using assms
proof (induction X valid_edges net_file s w rule: sample_loop.induct)
  case (1 X valid_edges net_file s w)
  show ?case
  proof (cases "added_vehicles s < num_random_vehicles \<and> attempts s < max_attempts")
    case False
    then show ?thesis by (simp add: sample_loop_stops)
  next
    case True
    from sample_step_ok[OF "1.prems"] obtain s1 w1 where
      st: "sample_step X valid_edges net_file s w = (Inr s1, w1)" by blast
    have "sample_loop X valid_edges net_file s w = sample_loop X valid_edges net_file s1 w1"
      using True st by (subst sample_loop.simps) simp
    with "1.IH"[OF True st[symmetric] _ "1.prems"] show ?thesis by simp
  qed
qed


lemma vehicles_of_map:
  "concat (map (elements_tagged ''vehicle'' \<circ> vehicle_element) vs) = map vehicle_element vs"
  by (induction vs) (simp_all add: vehicle_element_def)

lemma elements_tagged_routes:
  "elements_tagged ''vehicle'' (routes_document vs) = map vehicle_element vs"
  by (simp add: routes_document_def car_vtype_def highlighted_car_vtype_def vehicles_of_map)

lemma entry_ids_routes: "entry_ids (routes_document vs) = map v_id vs"
  unfolding entry_ids_def elements_tagged_routes
  by (induction vs) (simp_all add: attribute_def vehicle_element_def)

lemma entry_departs_routes:
  "\<forall>v \<in> set vs. finite_float (v_depart v) \<noteq> None \<Longrightarrow>
     entry_departs (routes_document vs) = map depart_key vs"
  unfolding entry_departs_def elements_tagged_routes
  by (induction vs) (auto simp: attribute_def vehicle_element_def depart_key_def)

lemma sampler_inv_parses:
  assumes "sampler_inv edges s"
  shows "\<forall>v \<in> set (vehicles s). finite_float (v_depart v) \<noteq> None"
proof -
  from assms obtain bg where bg: "vehicles s = highlight_vehicle edges # bg"
      and p: "\<forall>v \<in> set bg. finite_float (v_depart v) \<noteq> None"
    unfolding sampler_inv_def by blast
  have "finite_float (v_depart (highlight_vehicle edges)) \<noteq> None"
    by (simp add: highlight_vehicle_def finite_float_2)
  with p show ?thesis unfolding bg by simp
qed

lemma sort_by_depart_inv:
  assumes "sampler_inv edges s"
  shows "sort_by_depart (vehicles s) = Inr (sort_key depart_key (vehicles s))"
proof -
  have "\<not> list_ex (\<lambda>v. py_float (v_depart v) = None) (vehicles s)"
    using sampler_inv_parses[OF assms] finite_float_parses by (auto simp: list_ex_iff)
  then show ?thesis by (simp add: sort_by_depart_def)
qed

lemma save_route_to_file_cases:
  assumes "sample_loop X valid_edges net_file (initial_sampler edges)
             (py_print (creating_message valid_edges) w) = (r, s, w2)"
  shows "save_route_to_file X edges valid_edges net_file output_file w =
     (case r of
        Some e \<Rightarrow> (Inl e, w2)
      | None \<Rightarrow>
          (Inr (), (py_print (report_message s) w2)
             \<lparr>files := (files w2)(output_file \<mapsto>
                routes_document (sort_key depart_key (vehicles s)))\<rparr>))"
  using assms sort_by_depart_inv[OF sample_loop_inv[OF assms]]
  by (simp add: save_route_to_file_def Let_def py_print_def split: option.splits)

lemma sampler_inv_length:
  assumes "sampler_inv edges s"
  shows "length (vehicles s) = Suc (added_vehicles s)"
proof -
  from assms obtain bg where bg: "vehicles s = highlight_vehicle edges # bg"
      and ids: "map v_id bg = map (\<lambda>i. ''random_vehicle_'' @ str_nat i) [0..<added_vehicles s]"
    unfolding sampler_inv_def by blast
  from ids have "length (map v_id bg) = length [0..<added_vehicles s]"
    by (simp only: length_map)
  then have "length bg = added_vehicles s" by simp
  then show ?thesis by (simp add: bg)
qed

lemma count_list_map_filter:
  "count_list (map f xs) y = length (filter (\<lambda>x. f x = y) xs)"
  by (induction xs) auto

lemma length_filter_sort_key:
  "length (filter P (sort_key f xs)) = length (filter P xs)"
  by (simp add: filter_sort)

lemma distinct_map_insort_key:
  "distinct (map g (insort_key f x xs)) \<longleftrightarrow> g x \<notin> g ` set xs \<and> distinct (map g xs)"
  by (induction xs) (auto simp: set_insort_key)

lemma distinct_map_sort_key: "distinct (map g (sort_key f xs)) \<longleftrightarrow> distinct (map g xs)"
  by (induction xs) (simp_all add: distinct_map_insort_key)

lemma random_ids_distinct:
  "distinct (''route_highlight'' # map (\<lambda>i. ''random_vehicle_'' @ str_nat i) [0..<k])"
proof -
  have "inj_on (\<lambda>i. ''random_vehicle_'' @ str_nat i) (set [0..<k])"
    by (rule inj_onI) (auto dest: str_nat_inj)
  then have "distinct (map (\<lambda>i. ''random_vehicle_'' @ str_nat i) [0..<k])"
    by (simp add: distinct_map)
  then show ?thesis by auto
qed

lemma sampler_inv_ids:
  assumes "sampler_inv edges s"
  shows "map v_id (vehicles s) =
     ''route_highlight'' # map (\<lambda>i. ''random_vehicle_'' @ str_nat i) [0..<added_vehicles s]"
proof -
  from assms obtain bg where bg: "vehicles s = highlight_vehicle edges # bg"
      and ids: "map v_id bg = map (\<lambda>i. ''random_vehicle_'' @ str_nat i) [0..<added_vehicles s]"
    unfolding sampler_inv_def by blast
  show ?thesis unfolding bg using ids by (simp add: highlight_vehicle_def)
qed

lemma sampler_inv_one_highlight:
  assumes "sampler_inv edges s"
  shows "length (filter (\<lambda>v. vehicle_element v = vehicle_element (highlight_vehicle edges))
           (vehicles s)) = 1"
proof -
  from assms obtain bg where bg: "vehicles s = highlight_vehicle edges # bg"
      and ids: "map v_id bg = map (\<lambda>i. ''random_vehicle_'' @ str_nat i) [0..<added_vehicles s]"
    unfolding sampler_inv_def by blast
  have "v_id v \<noteq> ''route_highlight''" if "v \<in> set bg" for v
  proof -
    from that have "v_id v \<in> set (map v_id bg)" by simp
    then show ?thesis unfolding ids by auto
  qed
  then have "vehicle_element v \<noteq> vehicle_element (highlight_vehicle edges)" if "v \<in> set bg" for v
    using that by (auto simp: vehicle_element_def highlight_vehicle_def)
  then have "filter (\<lambda>v. vehicle_element v = vehicle_element (highlight_vehicle edges)) bg = []"
    by (simp add: filter_empty_conv)
  then show ?thesis unfolding bg by simp
qed

lemma save_route_to_file_document:
  assumes "save_route_to_file X edges valid_edges net_file output_file w = (Inr (), w')"
  shows "sampler_inv edges (sampled X edges valid_edges net_file w) \<and>
     files w' output_file =
       Some (routes_document (sort_key depart_key
         (vehicles (sampled X edges valid_edges net_file w))))"
proof -
  obtain r s w2 where run: "sample_loop X valid_edges net_file (initial_sampler edges)
      (py_print (creating_message valid_edges) w) = (r, s, w2)"
    by (metis prod_cases3)
  have s: "sampled X edges valid_edges net_file w = s"
    by (simp add: sampled_def run)
  from assms save_route_to_file_cases[OF run, of output_file]
  have "files w' output_file = Some (routes_document (sort_key depart_key (vehicles s)))"
    by (auto split: option.splits)
  with sample_loop_inv[OF run] show ?thesis unfolding s by simp
qed

lemma save_route_to_file_ok:
  assumes "valid_edges \<noteq> []" and "service_ok X"
  shows "\<exists>w'. save_route_to_file X edges valid_edges net_file output_file w = (Inr (), w')"
proof -
  obtain r s w2 where run: "sample_loop X valid_edges net_file (initial_sampler edges)
      (py_print (creating_message valid_edges) w) = (r, s, w2)"
    by (metis prod_cases3)
  with sample_loop_ok[OF assms, of net_file "initial_sampler edges"
      "py_print (creating_message valid_edges) w"]
  have "r = None" by simp
  with save_route_to_file_cases[OF run, of output_file] show ?thesis by simp
qed

lemma service_ok_quiet: "service_ok quiet_ext"
  by (simp add: service_ok_def quiet_ext_def)

lemma service_ok_busy: "service_ok busy_ext"
  by (simp add: service_ok_def busy_ext_def quiet_ext_def)

lemma find_route_never:
  assumes "\<forall>c a b. findRoute_result X c a b = Inr []"
      and "find_route X net_file a b w = (Inr r, w')"
  shows "r = None"
  using assms
  by (auto simp: find_route_def traci_start_def traci_findRoute_def Let_def
      split: option.splits sum.splits prod.splits if_splits)

lemma find_route_always:
  assumes "\<forall>c a b. \<exists>r. findRoute_result X c a b = Inr r \<and> r \<noteq> []"
      and "find_route X net_file a b w = (Inr r, w')"
  shows "\<exists>es. r = Some es \<and> es \<noteq> []"
proof (cases "sumo_home X")
  case None
  with assms(2) show ?thesis by (simp add: find_route_def)
next
  case (Some home)
  let ?w1 = "w\<lparr>sys_path := sys_path w @ [path_join home ''tools'']\<rparr>"
  show ?thesis
  proof (cases "start_raises X (clock ?w1)")
    case raised: (Some e)
    with assms(2) Some show ?thesis
      by (simp add: find_route_def traci_start_def Let_def)
  next
    case None
    from assms(1) obtain es where es:
      "findRoute_result X (Suc (clock w)) a b = Inr es" "es \<noteq> []" by blast
    with assms(2) Some None show ?thesis
      by (auto simp: find_route_def traci_start_def traci_findRoute_def tick_def Let_def)
  qed
qed

lemma sample_step_never:
  assumes never: "\<forall>c a b. findRoute_result X c a b = Inr []"
      and st: "sample_step X valid_edges net_file s w = (Inr s1, w1)"
  shows "added_vehicles s1 = added_vehicles s"
proof -
  obtain r1 v1 where c1: "random_choice X valid_edges w = (r1, v1)"
    by (cases "random_choice X valid_edges w")
  obtain r2 v2 where c2: "random_choice X valid_edges v1 = (r2, v2)"
    by (cases "random_choice X valid_edges v1")
  from st c1 obtain a where a: "r1 = Inr a"
    by (cases r1) (auto simp: sample_step_def)
  from st c1 c2 a obtain b where b: "r2 = Inr b"
    by (cases r2) (auto simp: sample_step_def)
  obtain r3 v3 where c3: "find_route X net_file a b v2 = (r3, v3)"
    by (cases "find_route X net_file a b v2")
  from st c1 c2 c3 a b obtain r where r: "r3 = Inr r"
    by (cases r3) (auto simp: sample_step_def)
  from find_route_never[OF never c3[unfolded r]] have "r = None" .
  with st c1 c2 c3 a b r show ?thesis
    by (auto simp: sample_step_def skip_attempt_def)
qed

lemma sample_step_always:
  assumes always: "\<forall>c a b. \<exists>r. findRoute_result X c a b = Inr r \<and> r \<noteq> []"
      and st: "sample_step X valid_edges net_file s w = (Inr s1, w1)"
  shows "added_vehicles s1 = Suc (added_vehicles s)"
proof -
  obtain r1 v1 where c1: "random_choice X valid_edges w = (r1, v1)"
    by (cases "random_choice X valid_edges w")
  obtain r2 v2 where c2: "random_choice X valid_edges v1 = (r2, v2)"
    by (cases "random_choice X valid_edges v1")
  from st c1 obtain a where a: "r1 = Inr a"
    by (cases r1) (auto simp: sample_step_def)
  from st c1 c2 a obtain b where b: "r2 = Inr b"
    by (cases r2) (auto simp: sample_step_def)
  obtain r3 v3 where c3: "find_route X net_file a b v2 = (r3, v3)"
    by (cases "find_route X net_file a b v2")
  from st c1 c2 c3 a b obtain r where r: "r3 = Inr r"
    by (cases r3) (auto simp: sample_step_def)
  from find_route_always[OF always c3[unfolded r]] obtain es where "r = Some es" "es \<noteq> []"
    by blast
  with st c1 c2 c3 a b r show ?thesis
    by (auto simp: sample_step_def skip_attempt_def random_uniform_def Let_def)
qed

lemma sampled_never:
  assumes "\<forall>c a b. findRoute_result X c a b = Inr []"
  shows "added_vehicles (sampled X edges valid_edges net_file w) = 0"
proof -
  obtain r s w2 where run: "sample_loop X valid_edges net_file (initial_sampler edges)
      (py_print (creating_message valid_edges) w) = (r, s, w2)"
    by (metis prod_cases3)
  have "added_vehicles s = 0"
    by (rule sample_loop_rule[OF run, where P = "\<lambda>s w. added_vehicles s = 0"])
      (auto simp: initial_sampler_def dest: sample_step_never[OF assms])
  then show ?thesis by (simp add: sampled_def run)
qed

lemma sampled_always:
  assumes always: "\<forall>c a b. \<exists>r. findRoute_result X c a b = Inr r \<and> r \<noteq> []"
      and ok: "valid_edges \<noteq> []" "service_ok X"
  shows "added_vehicles (sampled X edges valid_edges net_file w) = 50"
proof -
  obtain r s w2 where run: "sample_loop X valid_edges net_file (initial_sampler edges)
      (py_print (creating_message valid_edges) w) = (r, s, w2)"
    by (metis prod_cases3)
  have eq: "added_vehicles s = attempts s"
  proof (rule sample_loop_rule[OF run, where P = "\<lambda>s w. added_vehicles s = attempts s"])
    show "added_vehicles (initial_sampler edges) = attempts (initial_sampler edges)"
      by (simp add: initial_sampler_def)
  next
    fix s w s1 w1
    assume "added_vehicles s = attempts s"
      and "sample_step X valid_edges net_file s w = (Inr s1, w1)"
    then show "added_vehicles s1 = attempts s1"
      using sample_step_always[OF always, of valid_edges net_file s w s1 w1]
        sample_step_attempts[of X valid_edges net_file s w s1 w1] by simp
  qed
  from sample_loop_ok[OF ok, of net_file "initial_sampler edges"
      "py_print (creating_message valid_edges) w"] run have "r = None" by simp
  from sample_loop_exit[OF run[unfolded this]] sample_loop_inv[OF run] eq
  have "added_vehicles s = 50"
    by (auto simp: sampler_inv_def num_random_vehicles_def max_attempts_def)
  then show ?thesis by (simp add: sampled_def run)
qed




text \<open>
  Claim C5. In the document that \<open>save_route_to_file\<close> writes, the numeric departure
  times of the vehicle entries, read from the first entry to the last, are non-decreasing
  (every entry has one), and for each departure time the entries that carry it stand in the
  order in which their vehicles were inserted.
\<close>

theorem scene_sorted_by_departure:
  assumes "save_route_to_file X edges valid_edges net_file output_file w = (Inr (), w')"
  shows "\<exists>doc vs. files w' output_file = Some doc \<and>
     elements_tagged ''vehicle'' doc = map vehicle_element vs \<and>
     entry_departs doc = map depart_key vs \<and>
     sorted (entry_departs doc) \<and>
     (\<forall>t. filter (\<lambda>v. depart_key v = t) vs =
           filter (\<lambda>v. depart_key v = t) (vehicles (sampled X edges valid_edges net_file w)))"
proof -
  obtain r s w2 where run: "sample_loop X valid_edges net_file (initial_sampler edges)
      (py_print (creating_message valid_edges) w) = (r, s, w2)"
    by (metis prod_cases3)
  have s: "sampled X edges valid_edges net_file w = s"
    by (simp add: sampled_def run)
  let ?vs = "sort_key depart_key (vehicles s)"
  from assms save_route_to_file_cases[OF run, of output_file]
  have written: "files w' output_file = Some (routes_document ?vs)"
    by (auto split: option.splits)
  have parse: "\<forall>v \<in> set ?vs. finite_float (v_depart v) \<noteq> None"
    using sampler_inv_parses[OF sample_loop_inv[OF run]] by simp
  show ?thesis
    using written elements_tagged_routes[of ?vs] entry_departs_routes[OF parse]
      sort_key_stable[of depart_key _ "vehicles s"]
    unfolding s by (intro exI[of _ "routes_document ?vs"] exI[of _ ?vs]) simp
qed

theorem scene_sorted_by_departure_witness:
  "\<exists>w' doc.
     save_route_to_file busy_ext [''far''] [''far''] ''net.xml'' ''route.rou.xml'' world0 =
       (Inr (), w') \<and>
     files w' ''route.rou.xml'' = Some doc \<and> sorted (entry_departs doc) \<and>
     2 \<in> set (entry_departs doc)"
proof -
  let ?s = "sampled busy_ext [''far''] [''far''] ''net.xml'' world0"
  obtain w' where run:
    "save_route_to_file busy_ext [''far''] [''far''] ''net.xml'' ''route.rou.xml'' world0 =
       (Inr (), w')"
    using save_route_to_file_ok[OF _ service_ok_busy, of "[''far'']"] by blast
  from scene_sorted_by_departure[OF run] obtain doc vs where
    doc: "files w' ''route.rou.xml'' = Some doc" "entry_departs doc = map depart_key vs"
      "sorted (entry_departs doc)"
    and stable: "\<forall>t. filter (\<lambda>v. depart_key v = t) vs = filter (\<lambda>v. depart_key v = t) (vehicles ?s)"
    by blast
  have "sampler_inv [''far''] ?s"
    using save_route_to_file_document[OF run] by simp
  then obtain bg where "vehicles ?s = highlight_vehicle [''far''] # bg"
    unfolding sampler_inv_def by blast
  moreover have "depart_key (highlight_vehicle [''far'']) = 2"
    by (simp add: depart_key_def highlight_vehicle_def finite_float_2)
  ultimately have "highlight_vehicle [''far''] \<in> set (filter (\<lambda>v. depart_key v = 2) (vehicles ?s))"
    by simp
  with stable have "highlight_vehicle [''far''] \<in> set (filter (\<lambda>v. depart_key v = 2) vs)"
    by simp
  then have "2 \<in> set (map depart_key vs)" by force
  with run doc show ?thesis by auto
qed

text \<open>
  Claim C6. \<open>save_route_to_file\<close> writes its document whenever \<open>valid_edges\<close> is
  not empty and no call of the routing service raises. Every document it writes has exactly
  one entry for the vehicle \<open>route_highlight\<close> of type \<open>highlighted_car\<close>, with
  departure \<open>2\<close> and the requested route, among one more entry than background vehicles
  were sampled, however many these are, zero included.
\<close>

theorem highlight_always_present:
  "(valid_edges \<noteq> [] \<and> service_ok X \<longrightarrow>
      (\<exists>w'. save_route_to_file X edges valid_edges net_file output_file w = (Inr (), w'))) \<and>
   (\<forall>w'. save_route_to_file X edges valid_edges net_file output_file w = (Inr (), w') \<longrightarrow>
      (\<exists>doc. files w' output_file = Some doc \<and>
         count_list (elements_tagged ''vehicle'' doc)
           (Element ''vehicle''
              [(''id'', ''route_highlight''), (''type'', ''highlighted_car''), (''depart'', ''2'')]
              [Element ''route'' [(''edges'', join '' '' edges)] []]) = 1 \<and>
         length (elements_tagged ''vehicle'' doc) =
           Suc (added_vehicles (sampled X edges valid_edges net_file w))))"
proof (intro conjI allI impI)
  assume "valid_edges \<noteq> [] \<and> service_ok X"
  then show "\<exists>w'. save_route_to_file X edges valid_edges net_file output_file w = (Inr (), w')"
    using save_route_to_file_ok by blast
next
  fix w'
  assume run: "save_route_to_file X edges valid_edges net_file output_file w = (Inr (), w')"
  let ?s = "sampled X edges valid_edges net_file w"
  let ?doc = "routes_document (sort_key depart_key (vehicles ?s))"
  from save_route_to_file_document[OF run]
  have inv: "sampler_inv edges ?s" and written: "files w' output_file = Some ?doc" by simp_all
  have el: "vehicle_element (highlight_vehicle edges) =
      Element ''vehicle''
        [(''id'', ''route_highlight''), (''type'', ''highlighted_car''), (''depart'', ''2'')]
        [Element ''route'' [(''edges'', join '' '' edges)] []]"
    by (simp add: vehicle_element_def highlight_vehicle_def)
  have "count_list (elements_tagged ''vehicle'' ?doc) (vehicle_element (highlight_vehicle edges)) = 1"
    unfolding elements_tagged_routes count_list_map_filter length_filter_sort_key
    by (rule sampler_inv_one_highlight[OF inv])
  moreover have "length (elements_tagged ''vehicle'' ?doc) = Suc (added_vehicles ?s)"
    unfolding elements_tagged_routes by (simp add: sampler_inv_length[OF inv])
  ultimately show "\<exists>doc. files w' output_file = Some doc \<and>
         count_list (elements_tagged ''vehicle'' doc)
           (Element ''vehicle''
              [(''id'', ''route_highlight''), (''type'', ''highlighted_car''), (''depart'', ''2'')]
              [Element ''route'' [(''edges'', join '' '' edges)] []]) = 1 \<and>
         length (elements_tagged ''vehicle'' doc) =
           Suc (added_vehicles (sampled X edges valid_edges net_file w))"
    using written unfolding el by blast
qed

theorem highlight_always_present_witness:
  "\<exists>w' doc.
     save_route_to_file quiet_ext [''A'', ''B'', ''C''] [''far''] ''net.xml'' ''route.rou.xml''
       world0 = (Inr (), w') \<and>
     files w' ''route.rou.xml'' = Some doc \<and>
     elements_tagged ''vehicle'' doc =
       [Element ''vehicle''
          [(''id'', ''route_highlight''), (''type'', ''highlighted_car''), (''depart'', ''2'')]
          [Element ''route'' [(''edges'', ''A B C'')] []]]"
proof -
  note h = highlight_always_present[of "[''far'']" quiet_ext "[''A'', ''B'', ''C'']" "''net.xml''"
      "''route.rou.xml''" world0]
  from h service_ok_quiet obtain w' where run:
    "save_route_to_file quiet_ext [''A'', ''B'', ''C''] [''far''] ''net.xml'' ''route.rou.xml''
       world0 = (Inr (), w')"
    by auto
  have zero: "added_vehicles (sampled quiet_ext [''A'', ''B'', ''C''] [''far''] ''net.xml'' world0) = 0"
    by (rule sampled_never) (simp add: quiet_ext_def)
  from h run obtain doc where doc: "files w' ''route.rou.xml'' = Some doc"
    and one: "count_list (elements_tagged ''vehicle'' doc)
           (Element ''vehicle''
              [(''id'', ''route_highlight''), (''type'', ''highlighted_car''), (''depart'', ''2'')]
              [Element ''route'' [(''edges'', join '' '' [''A'', ''B'', ''C''])] []]) = 1"
    and len: "length (elements_tagged ''vehicle'' doc) = Suc 0"
    unfolding zero by blast
  from len obtain x where x: "elements_tagged ''vehicle'' doc = [x]"
    by (cases "elements_tagged ''vehicle'' doc") auto
  with one have "x = Element ''vehicle''
              [(''id'', ''route_highlight''), (''type'', ''highlighted_car''), (''depart'', ''2'')]
              [Element ''route'' [(''edges'', ''A B C'')] []]"
    by (simp split: if_splits)
  with run doc x show ?thesis by blast
qed

text \<open>
  Claim C10. In the document that \<open>save_route_to_file\<close> writes the vehicle identifiers
  are pairwise distinct: they are \<open>route_highlight\<close> and \<open>random_vehicle_i\<close> for
  every \<open>i\<close> below the number \<open>k\<close> of background vehicles, and in the order of
  insertion the background vehicles carry the indices \<open>0\<close> to \<open>k - 1\<close>.
\<close>

theorem vehicle_ids_distinct:
  assumes "save_route_to_file X edges valid_edges net_file output_file w = (Inr (), w')"
  shows "\<exists>doc. files w' output_file = Some doc \<and>
     distinct (entry_ids doc) \<and>
     length (entry_ids doc) = Suc (added_vehicles (sampled X edges valid_edges net_file w)) \<and>
     set (entry_ids doc) =
       insert ''route_highlight''
         ((\<lambda>i. ''random_vehicle_'' @ str_nat i) `
            {i. i < added_vehicles (sampled X edges valid_edges net_file w)}) \<and>
     map v_id (vehicles (sampled X edges valid_edges net_file w)) =
       ''route_highlight'' #
       map (\<lambda>i. ''random_vehicle_'' @ str_nat i)
         [0..<added_vehicles (sampled X edges valid_edges net_file w)]"
proof -
  let ?s = "sampled X edges valid_edges net_file w"
  let ?doc = "routes_document (sort_key depart_key (vehicles ?s))"
  from save_route_to_file_document[OF assms]
  have inv: "sampler_inv edges ?s" and written: "files w' output_file = Some ?doc" by simp_all
  note ids = sampler_inv_ids[OF inv]
  have "distinct (map v_id (vehicles ?s))"
    unfolding ids by (rule random_ids_distinct)
  then have d: "distinct (entry_ids ?doc)"
    by (simp add: entry_ids_routes distinct_map_sort_key)
  have l: "length (entry_ids ?doc) = Suc (added_vehicles ?s)"
    by (simp add: entry_ids_routes sampler_inv_length[OF inv])
  have up: "set [0..<added_vehicles ?s] = {i. i < added_vehicles ?s}"
    by auto
  have "set (entry_ids ?doc) = set (map v_id (vehicles ?s))"
    by (simp add: entry_ids_routes)
  also have "\<dots> = insert ''route_highlight''
      ((\<lambda>i. ''random_vehicle_'' @ str_nat i) ` set [0..<added_vehicles ?s])"
    by (simp only: ids list.set set_map)
  finally have st: "set (entry_ids ?doc) = insert ''route_highlight''
      ((\<lambda>i. ''random_vehicle_'' @ str_nat i) ` {i. i < added_vehicles ?s})"
    unfolding up .
  show ?thesis
    by (intro exI[of _ ?doc] conjI written d l st ids)
qed

theorem vehicle_ids_distinct_witness:
  "\<exists>w' doc.
     save_route_to_file busy_ext [''far''] [''far''] ''net.xml'' ''route.rou.xml'' world0 =
       (Inr (), w') \<and>
     files w' ''route.rou.xml'' = Some doc \<and> distinct (entry_ids doc) \<and>
     length (entry_ids doc) = 51 \<and> ''random_vehicle_49'' \<in> set (entry_ids doc)"
proof -
  obtain w' where run:
    "save_route_to_file busy_ext [''far''] [''far''] ''net.xml'' ''route.rou.xml'' world0 =
       (Inr (), w')"
    using save_route_to_file_ok[OF _ service_ok_busy, of "[''far'']"] by blast
  have fifty: "added_vehicles (sampled busy_ext [''far''] [''far''] ''net.xml'' world0) = 50"
    by (rule sampled_always[OF _ _ service_ok_busy]) (simp_all add: busy_ext_def quiet_ext_def)
  have name: "''random_vehicle_'' @ str_nat 49 = ''random_vehicle_49''"
    by (simp add: str_nat.simps digit_char_def)
  from vehicle_ids_distinct[OF run] obtain doc where
    doc: "files w' ''route.rou.xml'' = Some doc" "distinct (entry_ids doc)"
      "length (entry_ids doc) = Suc 50"
    and ids: "set (entry_ids doc) =
       insert ''route_highlight'' ((\<lambda>i. ''random_vehicle_'' @ str_nat i) ` {i. i < 50})"
    unfolding fifty by blast
  have "''random_vehicle_'' @ str_nat 49 \<in> set (entry_ids doc)"
    unfolding ids by (intro insertI2 imageI) simp
  with run doc show ?thesis unfolding name by auto
qed

section \<open>Resolving the two locations\<close>

lemma list_valid_edges_eq:
  "list_valid_edges net w = (ve, w1) \<Longrightarrow> ve = valid_edges_of net"
  using list_valid_edges_valid[of net w] by (simp add: valid_edges_of_def)

lemma list_valid_edges_split:
  "list_valid_edges net w = (valid_edges_of net, snd (list_valid_edges net w))"
  by (cases "list_valid_edges net w") (auto dest: list_valid_edges_eq)

lemma list_valid_edges_frame:
  "untouched w (snd (list_valid_edges net w)) \<and> clock (snd (list_valid_edges net w)) = clock w \<and>
   prompts_of (console (snd (list_valid_edges net w))) = prompts_of (console w)"
  using list_valid_edges_untouched[OF list_valid_edges_split] .

lemma resolve_location_result:
  "fst (resolve_location X net ve px py w) =
     (case py_float (input_line X (clock w)) of
        None \<Rightarrow> (if input_line X (clock w) \<in> set ve then Some (input_line X (clock w)) else None)
      | Some x \<Rightarrow>
          (case py_float (input_line X (Suc (clock w))) of
             None \<Rightarrow> (if input_line X (clock w) \<in> set ve then Some (input_line X (clock w)) else None)
           | Some y \<Rightarrow> find_nearest_edge net x y))"
  by (simp add: resolve_location_def py_input_def tick_def Let_def split: option.splits)

lemma resolve_location_clock:
  "clock (snd (resolve_location X net ve px py w)) =
     (if py_float (input_line X (clock w)) = None then Suc (clock w) else Suc (Suc (clock w)))"
  by (simp add: resolve_location_def py_input_def tick_def Let_def split: option.splits)

lemma resolve_location_console:
  "console (snd (resolve_location X net ve px py w)) =
     console w @ (if py_float (input_line X (clock w)) = None then [Prompt px]
                  else [Prompt px, Prompt py])"
  by (simp add: resolve_location_def py_input_def tick_def Let_def split: option.splits)

lemma resolve_location_prompts:
  "resolve_location X net ve px py w = (r, w') \<Longrightarrow>
     prompts_of (console w') = prompts_of (console w) @ [px] \<or>
     prompts_of (console w') = prompts_of (console w) @ [px, py]"
  by (auto simp: resolve_location_def py_input_def tick_def Let_def prompts_of_def
      split: option.splits if_splits)

lemma out_of_reach:
  "getNeighboringEdges net x y max_radius = [] \<Longrightarrow> find_nearest_edge net x y = None"
  unfolding find_nearest_edge_None_iff
  by (erule neighbours_mono) (simp add: max_radius_def)

lemma unresolvable_resolves_to_None:
  assumes "unresolvable net (input_line X (clock w)) (input_line X (Suc (clock w)))"
  shows "fst (resolve_location X net (valid_edges_of net) px py w) = None"
  using assms unfolding resolve_location_result unresolvable_def
  by (auto split: option.splits simp: out_of_reach)

lemma prompts_distinct:
  "distinct [fst start_prompts, snd start_prompts, fst destination_prompts, snd destination_prompts]"
  by (simp add: start_prompts_def destination_prompts_def)

lemma prompts_of_print: "prompts_of (console (py_print s w)) = prompts_of (console w)"
  by (simp add: py_print_def prompts_of_def)

lemma clock_print: "clock (py_print s w) = clock w"
  by (simp add: py_print_def)

lemma last_print: "last (console (py_print s w)) = Print s"
  by (simp add: py_print_def)

text \<open>The value of \<open>start_edge\<close> and of \<open>end_edge\<close>, from the lines that are typed.\<close>

lemma start_edge_of_eq:
  "start_edge_of X net w =
     (case py_float (input_line X (clock w)) of
        None \<Rightarrow> (if input_line X (clock w) \<in> set (valid_edges_of net)
                 then Some (input_line X (clock w)) else None)
      | Some x \<Rightarrow>
          (case py_float (input_line X (Suc (clock w))) of
             None \<Rightarrow> (if input_line X (clock w) \<in> set (valid_edges_of net)
                      then Some (input_line X (clock w)) else None)
           | Some y \<Rightarrow> find_nearest_edge net x y))"
proof -
  have c: "clock (snd (list_valid_edges net w)) = clock w"
    by (simp add: list_valid_edges_frame)
  show ?thesis
    unfolding start_edge_of_def start_resolution_def resolve_location_result c by (rule refl)
qed

lemma end_edge_of_eq:
  "end_edge_of X net w =
     (case py_float (input_line X (clock (at_destination_prompt X net w))) of
        None \<Rightarrow> (if input_line X (clock (at_destination_prompt X net w)) \<in> set (valid_edges_of net)
                 then Some (input_line X (clock (at_destination_prompt X net w))) else None)
      | Some x \<Rightarrow>
          (case py_float (input_line X (Suc (clock (at_destination_prompt X net w)))) of
             None \<Rightarrow> (if input_line X (clock (at_destination_prompt X net w)) \<in>
                           set (valid_edges_of net)
                      then Some (input_line X (clock (at_destination_prompt X net w))) else None)
           | Some y \<Rightarrow> find_nearest_edge net x y))"
  by (simp add: end_edge_of_def destination_resolution_def resolve_location_result)

lemma start_resolution_clock:
  "clock (snd (start_resolution X net w)) =
     (if py_float (input_line X (clock w)) = None then Suc (clock w) else Suc (Suc (clock w)))"
  by (simp add: start_resolution_def resolve_location_clock list_valid_edges_frame)

lemma at_destination_prompt_clock:
  "clock (at_destination_prompt X net w) =
     (if py_float (input_line X (clock w)) = None then Suc (clock w) else Suc (Suc (clock w)))"
proof -
  have "clock (at_destination_prompt X net w) = clock (snd (start_resolution X net w))"
    by (cases "start_resolution X net w")
      (simp add: at_destination_prompt_def clock_print split: option.splits)
  then show ?thesis by (simp add: start_resolution_clock)
qed

text \<open>What the two resolutions leave untouched, and the prompts that they show.\<close>

lemma start_resolution_frame:
  "untouched w (snd (start_resolution X net w)) \<and>
   (\<exists>sp. prompts_of (console (snd (start_resolution X net w))) = prompts_of (console w) @ sp \<and>
      (sp = [fst start_prompts] \<or> sp = [fst start_prompts, snd start_prompts]))"
proof -
  let ?w1 = "snd (list_valid_edges net w)"
  obtain s w2 where rs: "resolve_location X net (valid_edges_of net) (fst start_prompts)
      (snd start_prompts) ?w1 = (s, w2)"
    by (cases "resolve_location X net (valid_edges_of net) (fst start_prompts)
      (snd start_prompts) ?w1")
  then have w2: "snd (start_resolution X net w) = w2"
    by (simp add: start_resolution_def)
  have u: "untouched w w2"
    using list_valid_edges_frame[of w net] resolve_location_untouched[OF rs] untouched_trans
    by blast
  from resolve_location_prompts[OF rs] list_valid_edges_frame[of w net]
  have "prompts_of (console w2) = prompts_of (console w) @ [fst start_prompts] \<or>
        prompts_of (console w2) = prompts_of (console w) @ [fst start_prompts, snd start_prompts]"
    by simp
  with u show ?thesis unfolding w2 by blast
qed

lemma at_destination_prompt_frame:
  "untouched w (at_destination_prompt X net w) \<and>
   prompts_of (console (at_destination_prompt X net w)) =
     prompts_of (console (snd (start_resolution X net w)))"
proof -
  obtain s w2 where rs: "start_resolution X net w = (s, w2)"
    by (cases "start_resolution X net w")
  from start_resolution_frame[of w X net] have u: "untouched w w2" by (simp add: rs)
  show ?thesis
  proof (cases s)
    case None
    with u show ?thesis by (simp add: at_destination_prompt_def rs)
  next
    case (Some i)
    have "untouched w (py_print (''Selected start edge: '' @ i) w2)"
      using u untouched_print untouched_trans by blast
    with Some show ?thesis by (simp add: at_destination_prompt_def rs prompts_of_print)
  qed
qed

lemma destination_resolution_frame:
  "untouched w (snd (destination_resolution X net w)) \<and>
   (\<exists>sp dp. prompts_of (console (snd (destination_resolution X net w))) =
        prompts_of (console w) @ sp @ dp \<and>
      (sp = [fst start_prompts] \<or> sp = [fst start_prompts, snd start_prompts]) \<and>
      (dp = [fst destination_prompts] \<or>
       dp = [fst destination_prompts, snd destination_prompts]))"
proof -
  let ?w3 = "at_destination_prompt X net w"
  obtain d w4 where re: "resolve_location X net (valid_edges_of net) (fst destination_prompts)
      (snd destination_prompts) ?w3 = (d, w4)"
    by (cases "resolve_location X net (valid_edges_of net) (fst destination_prompts)
      (snd destination_prompts) ?w3")
  then have w4: "snd (destination_resolution X net w) = w4"
    by (simp add: destination_resolution_def)
  have u: "untouched w w4"
    using at_destination_prompt_frame[of w X net] resolve_location_untouched[OF re]
      untouched_trans by blast
  from start_resolution_frame[of w X net] at_destination_prompt_frame[of w X net]
  obtain sp where sp: "prompts_of (console ?w3) = prompts_of (console w) @ sp"
      "sp = [fst start_prompts] \<or> sp = [fst start_prompts, snd start_prompts]"
    by auto
  from resolve_location_prompts[OF re] obtain dp where
    dp: "prompts_of (console w4) = prompts_of (console ?w3) @ dp"
      "dp = [fst destination_prompts] \<or> dp = [fst destination_prompts, snd destination_prompts]"
    by auto
  have "prompts_of (console w4) = prompts_of (console w) @ sp @ dp"
    using sp(1) dp(1) by simp
  with u sp(2) dp(2) show ?thesis unfolding w4 by blast
qed

text \<open>The three ways in which \<open>main\<close> ends.\<close>

lemma main_outcome:
  "main X net w =
     (if falsy (start_edge_of X net w)
      then (Inr (), py_print ''Error: Invalid start location'' (snd (start_resolution X net w)))
      else if falsy (end_edge_of X net w)
      then (Inr (), py_print ''Error: Invalid destination location''
                      (snd (destination_resolution X net w)))
      else route_and_launch X ''../data/test.net.xml'' (valid_edges_of net)
             (the (start_edge_of X net w)) (the (end_edge_of X net w))
             (py_print (''Selected destination edge: '' @ the (end_edge_of X net w))
                (snd (destination_resolution X net w))))"
proof -
  let ?ve = "valid_edges_of net"
  let ?w1 = "snd (list_valid_edges net w)"
  note lv = list_valid_edges_split[of net w]
  obtain s w2 where rs:
    "resolve_location X net ?ve (fst start_prompts) (snd start_prompts) ?w1 = (s, w2)"
    by (cases "resolve_location X net ?ve (fst start_prompts) (snd start_prompts) ?w1")
  obtain d w4 where re:
    "resolve_location X net ?ve (fst destination_prompts) (snd destination_prompts)
       (py_print (''Selected start edge: '' @ the s) w2) = (d, w4)"
    by (cases "resolve_location X net ?ve (fst destination_prompts) (snd destination_prompts)
       (py_print (''Selected start edge: '' @ the s) w2)")
  have sr: "start_resolution X net w = (s, w2)"
    using rs by (simp add: start_resolution_def)
  have se: "start_edge_of X net w = s"
    by (simp add: start_edge_of_def sr)
  show ?thesis
  proof (cases s)
    case None
    then show ?thesis
      unfolding main_cases[OF lv rs re] by (simp add: falsy_def se sr)
  next
    case (Some i)
    then have ad: "at_destination_prompt X net w =
        py_print (''Selected start edge: '' @ the s) w2"
      by (simp add: at_destination_prompt_def sr)
    have dr: "destination_resolution X net w = (d, w4)"
      using re by (simp add: destination_resolution_def ad)
    have de: "end_edge_of X net w = d"
      by (simp add: end_edge_of_def dr)
    show ?thesis
      unfolding main_cases[OF lv rs re] by (simp add: falsy_def se sr de dr)
  qed
qed

lemma start_abort:
  assumes "falsy (start_edge_of X net w)"
  shows "\<exists>w' shown. main X net w = (Inr (), w') \<and> untouched w w' \<and>
         last (console w') = Print ''Error: Invalid start location'' \<and>
         prompts_of (console w') = prompts_of (console w) @ shown \<and>
         (shown = [fst start_prompts] \<or> shown = [fst start_prompts, snd start_prompts])"
proof -
  let ?w2 = "snd (start_resolution X net w)"
  let ?w' = "py_print ''Error: Invalid start location'' ?w2"
  have m: "main X net w = (Inr (), ?w')"
    using assms by (simp add: main_outcome)
  from start_resolution_frame[of w X net] obtain sp where u2: "untouched w ?w2"
      and p: "prompts_of (console ?w2) = prompts_of (console w) @ sp"
      and sp: "sp = [fst start_prompts] \<or> sp = [fst start_prompts, snd start_prompts]"
    by blast
  have u: "untouched w ?w'"
    using u2 untouched_print untouched_trans by blast
  have l: "last (console ?w') = Print ''Error: Invalid start location''"
    by (rule last_print)
  have p': "prompts_of (console ?w') = prompts_of (console w) @ sp"
    using p by (simp add: prompts_of_print)
  from m u l p' sp show ?thesis by blast
qed

lemma destination_abort:
  assumes "\<not> falsy (start_edge_of X net w)" and "falsy (end_edge_of X net w)"
  shows "\<exists>w' shown. main X net w = (Inr (), w') \<and> untouched w w' \<and>
         last (console w') = Print ''Error: Invalid destination location'' \<and>
         prompts_of (console w') = prompts_of (console w) @ shown \<and> distinct shown \<and>
         set shown \<subseteq> {fst start_prompts, snd start_prompts,
                        fst destination_prompts, snd destination_prompts}"
proof -
  let ?w4 = "snd (destination_resolution X net w)"
  let ?w' = "py_print ''Error: Invalid destination location'' ?w4"
  have m: "main X net w = (Inr (), ?w')"
    using assms by (simp add: main_outcome)
  from destination_resolution_frame[of w X net] obtain sp dp where u4: "untouched w ?w4"
      and p: "prompts_of (console ?w4) = prompts_of (console w) @ sp @ dp"
      and sp: "sp = [fst start_prompts] \<or> sp = [fst start_prompts, snd start_prompts]"
      and dp: "dp = [fst destination_prompts] \<or>
               dp = [fst destination_prompts, snd destination_prompts]"
    by blast
  have u: "untouched w ?w'"
    using u4 untouched_print untouched_trans by blast
  have l: "last (console ?w') = Print ''Error: Invalid destination location''"
    by (rule last_print)
  have p': "prompts_of (console ?w') = prompts_of (console w) @ (sp @ dp)"
    using p by (simp add: prompts_of_print)
  have di: "distinct (sp @ dp)"
    using sp dp prompts_distinct by auto
  have su: "set (sp @ dp) \<subseteq> {fst start_prompts, snd start_prompts,
      fst destination_prompts, snd destination_prompts}"
    using sp dp by auto
  from m u l p' di su show ?thesis by blast
qed

lemma unresolvable_start:
  "unresolvable net (input_line X (clock w)) (input_line X (Suc (clock w))) \<Longrightarrow>
     start_edge_of X net w = None"
  unfolding start_edge_of_def start_resolution_def
  by (rule unresolvable_resolves_to_None) (simp add: list_valid_edges_frame)

lemma unresolvable_destination:
  "unresolvable net (input_line X (clock (at_destination_prompt X net w)))
     (input_line X (Suc (clock (at_destination_prompt X net w)))) \<Longrightarrow>
   end_edge_of X net w = None"
  unfolding end_edge_of_def destination_resolution_def
  by (rule unresolvable_resolves_to_None)

text \<open>The examples.\<close>

lemma valid_edges_of_far: "valid_edges_of far_net = [''far'']"
  by (simp add: valid_edges_of_def far_net_def far_edge_def is_valid_vehicle_edge_def
      getEdge_def allows_def)

lemma valid_edges_of_bus: "valid_edges_of bus_net = [''street'']"
  by (simp add: valid_edges_of_def bus_net_def busway_def street_def is_valid_vehicle_edge_def
      getEdge_def allows_def)

lemma busway_invalid: "\<not> is_valid_vehicle_edge bus_net ''busway''"
  by (simp add: bus_net_def busway_def street_def is_valid_vehicle_edge_def getEdge_def allows_def)

lemma nearest_origin: "find_nearest_edge bus_net (Finite 0) (Finite 0) = Some ''busway''"
  by (simp add: find_nearest_edge_def nearest_loop.simps[of _ _ _ 0] radius_after_def
      initial_radius_def max_radius_def getNeighboringEdges_def bus_net_def busway_def street_def
      column_distance_def)

lemma far_from_origin: "find_nearest_edge far_net (Finite 0) (Finite 0) = None"
  by (simp add: find_nearest_edge_None_iff neighbours_empty_iff far_net_def far_edge_def
      column_distance_def)

lemma py_float_0: "py_float ''0'' = Some (Finite 0)"
  by (simp add: float_defs)

lemma py_float_2000: "py_float ''2000'' = Some (Finite 2000)"
  by (simp add: float_defs)

lemma py_float_nowhere: "py_float ''nowhere'' = None"
  by (simp add: float_defs)

lemma py_float_busway: "py_float ''busway'' = None"
  by (simp add: float_defs)

lemma unresolvable_nowhere: "unresolvable far_net ''nowhere'' b"
  by (simp add: unresolvable_def valid_edges_of_far py_float_nowhere)

lemma unresolvable_offmap: "unresolvable far_net ''2000'' ''0''"
  by (simp add: unresolvable_def py_float_2000 py_float_0 getNeighboringEdges_def far_net_def
      far_edge_def column_distance_def max_radius_def)

lemma no_home_lost_start: "start_edge_of no_home_lost_ext far_net world0 = None"
  by (simp add: start_edge_of_eq no_home_lost_ext_def quiet_ext_def py_float_nowhere
      valid_edges_of_far)

lemma near_miss_start: "start_edge_of origin_ext far_net world0 = None"
  by (simp add: start_edge_of_eq origin_ext_def quiet_ext_def world0_def py_float_0
      far_from_origin)

lemma offmap_start: "start_edge_of offmap_ext far_net world0 = Some ''far''"
  by (simp add: start_edge_of_eq offmap_ext_def quiet_ext_def world0_def py_float_far
      valid_edges_of_far)

lemma offmap_clock: "clock (at_destination_prompt offmap_ext far_net world0) = 1"
  by (simp add: at_destination_prompt_clock offmap_ext_def quiet_ext_def world0_def py_float_far)

lemma no_home_start: "start_edge_of no_home_ext far_net w = Some ''far''"
  by (simp add: start_edge_of_eq no_home_ext_def quiet_ext_def py_float_far valid_edges_of_far)

lemma no_home_end: "end_edge_of no_home_ext far_net w = Some ''far''"
  by (simp add: end_edge_of_eq no_home_ext_def quiet_ext_def py_float_far valid_edges_of_far)

lemma no_home_prompts:
  "prompts_of (console (snd (destination_resolution no_home_ext far_net world0))) =
     [fst start_prompts, fst destination_prompts]"
proof -
  have inp: "input_line no_home_ext c = ''far''" for c
    by (simp add: no_home_ext_def quiet_ext_def)
  have "console (snd (start_resolution no_home_ext far_net world0)) =
      console (snd (list_valid_edges far_net world0)) @ [Prompt (fst start_prompts)]"
    by (simp add: start_resolution_def resolve_location_console inp py_float_far)
  then have s: "prompts_of (console (snd (start_resolution no_home_ext far_net world0))) =
      [fst start_prompts]"
    using list_valid_edges_frame[of world0 far_net]
    by (simp add: prompts_of_def world0_def)
  have "console (snd (destination_resolution no_home_ext far_net world0)) =
      console (at_destination_prompt no_home_ext far_net world0) @
        [Prompt (fst destination_prompts)]"
    by (simp add: destination_resolution_def resolve_location_console inp py_float_far)
  then have "prompts_of (console (snd (destination_resolution no_home_ext far_net world0))) =
      prompts_of (console (at_destination_prompt no_home_ext far_net world0)) @
        [fst destination_prompts]"
    by (simp add: prompts_of_def)
  with s at_destination_prompt_frame[of world0 no_home_ext far_net] show ?thesis
    by simp
qed

lemma no_home_run:
  "main no_home_ext far_net world0 =
     (Inl (SystemExit sumo_home_message),
      py_print ''Selected destination edge: far''
        (snd (destination_resolution no_home_ext far_net world0)))"
proof -
  have home: "sumo_home no_home_ext = None"
    by (simp add: no_home_ext_def quiet_ext_def)
  show ?thesis
    by (simp add: main_outcome no_home_start no_home_end falsy_def
        route_and_launch_no_home[OF home])
qed

lemma no_home_lost_run:
  "main no_home_lost_ext far_net world0 =
     (Inr (), py_print ''Error: Invalid start location''
        (snd (start_resolution no_home_lost_ext far_net world0)))"
  by (simp add: main_outcome no_home_lost_start falsy_def)

lemma no_home_exit:
  assumes "sumo_home X = None" and "\<not> falsy (start_edge_of X net w)"
      and "\<not> falsy (end_edge_of X net w)"
  shows "main X net w =
     (Inl (SystemExit sumo_home_message),
      py_print (''Selected destination edge: '' @ the (end_edge_of X net w))
        (snd (destination_resolution X net w)))"
  using assms by (simp add: main_outcome route_and_launch_no_home)

lemma busway_selected:
  "Print ''Selected start edge: busway'' \<in> set (console (snd (main origin_ext bus_net world0)))"
proof -
  have s: "start_edge_of origin_ext bus_net world0 = Some ''busway''"
    by (simp add: start_edge_of_eq origin_ext_def quiet_ext_def world0_def py_float_0
        nearest_origin)
  have c: "clock (at_destination_prompt origin_ext bus_net world0) = 2"
    by (simp add: at_destination_prompt_clock origin_ext_def quiet_ext_def world0_def py_float_0)
  have i: "input_line origin_ext 2 = ''nowhere''"
    by (simp add: origin_ext_def quiet_ext_def)
  have e: "end_edge_of origin_ext bus_net world0 = None"
    by (simp add: end_edge_of_eq c i py_float_nowhere valid_edges_of_bus)
  obtain w2 where sr: "start_resolution origin_ext bus_net world0 = (Some ''busway'', w2)"
    using s by (cases "start_resolution origin_ext bus_net world0") (simp add: start_edge_of_def)
  have ad: "at_destination_prompt origin_ext bus_net world0 =
      py_print ''Selected start edge: busway'' w2"
    by (simp add: at_destination_prompt_def sr)
  have "Print ''Selected start edge: busway'' \<in>
      set (console (at_destination_prompt origin_ext bus_net world0))"
    unfolding ad by (simp add: py_print_def)
  then have "Print ''Selected start edge: busway'' \<in>
      set (console (snd (destination_resolution origin_ext bus_net world0)))"
    by (simp add: destination_resolution_def resolve_location_console)
  moreover have "main origin_ext bus_net world0 =
      (Inr (), py_print ''Error: Invalid destination location''
         (snd (destination_resolution origin_ext bus_net world0)))"
    by (simp add: main_outcome s e falsy_def)
  ultimately show ?thesis by (simp add: py_print_def)
qed

text \<open>
  Claim C7. A location fails to resolve when the value that \<open>main\<close> has for it is
  \<open>None\<close> or empty. When the start fails to resolve, \<open>main\<close> returns without an
  exception, the last line of the console is the error message for the start, each start
  prompt was shown at most once and no other prompt, and no file was written, nothing was
  launched and no routing session was touched. When the start resolves and the destination
  fails to, the same holds with the error message for the destination, each of the four
  prompts shown at most once. The two cases of the claim are such failures: a line that is
  not a number and not a valid edge, and coordinates with no edge within the radius 1000,
  resolve to \<open>None\<close>, for the start and for the destination.
\<close>

theorem unresolved_location_aborts:
  "(falsy (start_edge_of X net w) \<longrightarrow>
      (\<exists>w' shown. main X net w = (Inr (), w') \<and> untouched w w' \<and>
         last (console w') = Print ''Error: Invalid start location'' \<and>
         prompts_of (console w') = prompts_of (console w) @ shown \<and>
         (shown = [fst start_prompts] \<or> shown = [fst start_prompts, snd start_prompts]))) \<and>
   (\<not> falsy (start_edge_of X net w) \<and> falsy (end_edge_of X net w) \<longrightarrow>
      (\<exists>w' shown. main X net w = (Inr (), w') \<and> untouched w w' \<and>
         last (console w') = Print ''Error: Invalid destination location'' \<and>
         prompts_of (console w') = prompts_of (console w) @ shown \<and> distinct shown \<and>
         set shown \<subseteq> {fst start_prompts, snd start_prompts,
                        fst destination_prompts, snd destination_prompts})) \<and>
   (unresolvable net (input_line X (clock w)) (input_line X (Suc (clock w))) \<longrightarrow>
      start_edge_of X net w = None) \<and>
   (unresolvable net (input_line X (clock (at_destination_prompt X net w)))
      (input_line X (Suc (clock (at_destination_prompt X net w)))) \<longrightarrow>
      end_edge_of X net w = None)"
  using start_abort[of X net w] destination_abort[of X net w] unresolvable_start[of net X w]
    unresolvable_destination[of net X w]
  by blast

theorem unresolved_location_aborts_witness:
  "(\<exists>w'. main lost_ext far_net world0 = (Inr (), w') \<and> files w' = Map.empty \<and>
          launched w' = [] \<and> last (console w') = Print ''Error: Invalid start location'') \<and>
   (\<exists>w'. main offmap_ext far_net world0 = (Inr (), w') \<and> files w' = Map.empty \<and>
          launched w' = [] \<and>
          last (console w') = Print ''Error: Invalid destination location'') \<and>
   (\<exists>w'. main origin_ext far_net world0 = (Inr (), w') \<and> files w' = Map.empty \<and>
          launched w' = [] \<and> last (console w') = Print ''Error: Invalid start location'')"
proof -
  note t1 = unresolved_location_aborts[of lost_ext far_net world0]
  have "unresolvable far_net (input_line lost_ext (clock world0))
          (input_line lost_ext (Suc (clock world0)))"
    by (simp add: lost_ext_def quiet_ext_def unresolvable_nowhere)
  with t1 have "falsy (start_edge_of lost_ext far_net world0)"
    by (simp add: falsy_def)
  with t1 obtain w' where a: "main lost_ext far_net world0 = (Inr (), w')"
      "untouched world0 w'" "last (console w') = Print ''Error: Invalid start location''"
    by blast
  note t2 = unresolved_location_aborts[of offmap_ext far_net world0]
  have s2: "\<not> falsy (start_edge_of offmap_ext far_net world0)"
    by (simp add: falsy_def offmap_start)
  have typed: "input_line offmap_ext 1 = ''2000''" "input_line offmap_ext 2 = ''0''"
    by (simp_all add: offmap_ext_def quiet_ext_def)
  have "unresolvable far_net
      (input_line offmap_ext (clock (at_destination_prompt offmap_ext far_net world0)))
      (input_line offmap_ext (Suc (clock (at_destination_prompt offmap_ext far_net world0))))"
    unfolding offmap_clock using typed unresolvable_offmap by (simp add: numeral_2_eq_2)
  with t2 have "falsy (end_edge_of offmap_ext far_net world0)"
    by (simp add: falsy_def)
  with t2 s2 obtain v' where b: "main offmap_ext far_net world0 = (Inr (), v')"
      "untouched world0 v'" "last (console v') = Print ''Error: Invalid destination location''"
    by blast
  note t3 = unresolved_location_aborts[of origin_ext far_net world0]
  have "falsy (start_edge_of origin_ext far_net world0)"
    by (simp add: falsy_def near_miss_start)
  with t3 obtain u' where c: "main origin_ext far_net world0 = (Inr (), u')"
      "untouched world0 u'" "last (console u') = Print ''Error: Invalid start location''"
    by blast
  from a b c show ?thesis
    by (simp add: untouched_def world0_def)
qed

text \<open>
  Claim C8. Without \<open>SUMO_HOME\<close> a call of \<open>find_route\<close> exits with the message and
  leaves the world as it was: no session is opened and \<open>traci\<close> is not called. The
  program does not exit at once. \<open>main\<close> makes its first call of \<open>find_route\<close>
  after it has listed the edges and read both locations: a run without \<open>SUMO_HOME\<close>
  ends with this exit exactly when both locations resolve, and then after the prompts for
  both and the line that names the destination edge; otherwise it returns with the error
  message of the location that failed. In no case is a file written, a session opened or
  anything launched.
\<close>

theorem missing_sumo_home_exits_at_first_request:
  "sumo_home X = None \<Longrightarrow>
     find_route X net_file start_edge end_edge w = (Inl (SystemExit sumo_home_message), w) \<and>
     untouched w (snd (main X net w)) \<and>
     (fst (main X net w) = Inl (SystemExit sumo_home_message) \<longleftrightarrow>
        \<not> falsy (start_edge_of X net w) \<and> \<not> falsy (end_edge_of X net w)) \<and>
     (fst (main X net w) = Inl (SystemExit sumo_home_message) \<longrightarrow>
        last (console (snd (main X net w))) =
          Print (''Selected destination edge: '' @ the (end_edge_of X net w)) \<and>
        (\<exists>sp dp. prompts_of (console (snd (main X net w))) = prompts_of (console w) @ sp @ dp \<and>
           (sp = [fst start_prompts] \<or> sp = [fst start_prompts, snd start_prompts]) \<and>
           (dp = [fst destination_prompts] \<or>
            dp = [fst destination_prompts, snd destination_prompts]))) \<and>
     (fst (main X net w) \<noteq> Inl (SystemExit sumo_home_message) \<longrightarrow>
        fst (main X net w) = Inr () \<and>
        (last (console (snd (main X net w))) = Print ''Error: Invalid start location'' \<or>
         last (console (snd (main X net w))) = Print ''Error: Invalid destination location''))"
proof -
  assume home: "sumo_home X = None"
  have fr: "find_route X net_file start_edge end_edge w = (Inl (SystemExit sumo_home_message), w)"
    using home by (rule find_route_no_home)
  consider (start) "falsy (start_edge_of X net w)"
    | (destination) "\<not> falsy (start_edge_of X net w)" "falsy (end_edge_of X net w)"
    | (both) "\<not> falsy (start_edge_of X net w)" "\<not> falsy (end_edge_of X net w)"
    by blast
  then show ?thesis
  proof cases
    case start
    from start_abort[OF start] obtain w' where "main X net w = (Inr (), w')"
        "untouched w w'" "last (console w') = Print ''Error: Invalid start location''"
      by blast
    with fr start show ?thesis by simp
  next
    case destination
    from destination_abort[OF destination] obtain w' where "main X net w = (Inr (), w')"
        "untouched w w'" "last (console w') = Print ''Error: Invalid destination location''"
      by blast
    with fr destination show ?thesis by simp
  next
    case both
    let ?w4 = "snd (destination_resolution X net w)"
    let ?w' = "py_print (''Selected destination edge: '' @ the (end_edge_of X net w)) ?w4"
    have m: "main X net w = (Inl (SystemExit sumo_home_message), ?w')"
      using home both by (rule no_home_exit)
    from destination_resolution_frame[of w X net] obtain sp dp where u4: "untouched w ?w4"
        and p: "prompts_of (console ?w4) = prompts_of (console w) @ sp @ dp"
        and sp: "sp = [fst start_prompts] \<or> sp = [fst start_prompts, snd start_prompts]"
        and dp: "dp = [fst destination_prompts] \<or>
                 dp = [fst destination_prompts, snd destination_prompts]"
      by blast
    have u: "untouched w ?w'"
      using u4 untouched_print untouched_trans by blast
    have l: "last (console ?w') =
        Print (''Selected destination edge: '' @ the (end_edge_of X net w))"
      by (rule last_print)
    have "prompts_of (console ?w') = prompts_of (console w) @ sp @ dp"
      using p by (simp add: prompts_of_print)
    with sp dp have e: "\<exists>sp dp. prompts_of (console ?w') = prompts_of (console w) @ sp @ dp \<and>
           (sp = [fst start_prompts] \<or> sp = [fst start_prompts, snd start_prompts]) \<and>
           (dp = [fst destination_prompts] \<or>
            dp = [fst destination_prompts, snd destination_prompts])"
      by blast
    from fr both u l e show ?thesis
      unfolding m by simp
  qed
qed

theorem missing_sumo_home_exits_at_first_request_witness:
  "fst (main no_home_ext far_net world0) = Inl (SystemExit sumo_home_message) \<and>
   last (console (snd (main no_home_ext far_net world0))) =
     Print ''Selected destination edge: far'' \<and>
   traci_log (snd (main no_home_ext far_net world0)) = [] \<and>
   open_sessions (snd (main no_home_ext far_net world0)) = 0 \<and>
   files (snd (main no_home_ext far_net world0)) = Map.empty \<and>
   launched (snd (main no_home_ext far_net world0)) = [] \<and>
   fst (main no_home_lost_ext far_net world0) = Inr () \<and>
   files (snd (main no_home_lost_ext far_net world0)) = Map.empty"
proof -
  have lost: "sumo_home no_home_lost_ext = None"
    by (simp add: no_home_lost_ext_def quiet_ext_def)
  note t' = missing_sumo_home_exits_at_first_request[OF lost, of "[]" "[]" "[]" world0 far_net]
  have "falsy (start_edge_of no_home_lost_ext far_net world0)"
    by (simp add: falsy_def no_home_lost_start)
  with t' have "fst (main no_home_lost_ext far_net world0) \<noteq> Inl (SystemExit sumo_home_message)"
    by blast
  with t' have r: "fst (main no_home_lost_ext far_net world0) = Inr ()"
    by blast
  from t' have u: "untouched world0 (snd (main no_home_lost_ext far_net world0))"
    by blast
  have home: "sumo_home no_home_ext = None"
    by (simp add: no_home_ext_def quiet_ext_def)
  note t = missing_sumo_home_exits_at_first_request[OF home, of "[]" "[]" "[]" world0 far_net]
  have both: "\<not> falsy (start_edge_of no_home_ext far_net world0) \<and>
      \<not> falsy (end_edge_of no_home_ext far_net world0)"
    by (simp add: falsy_def no_home_start no_home_end)
  with t have ex: "fst (main no_home_ext far_net world0) = Inl (SystemExit sumo_home_message)"
    by blast
  with t have l: "last (console (snd (main no_home_ext far_net world0))) =
      Print (''Selected destination edge: '' @ the (end_edge_of no_home_ext far_net world0))"
    by blast
  from t have "untouched world0 (snd (main no_home_ext far_net world0))"
    by blast
  with ex l r u show ?thesis
    by (simp add: untouched_def world0_def no_home_end)
qed

theorem missing_sumo_home_checked_late:
  "sumo_home no_home_lost_ext = None \<and>
   fst (main no_home_lost_ext far_net world0) = Inr () \<and>
   last (console (snd (main no_home_lost_ext far_net world0))) =
     Print ''Error: Invalid start location'' \<and>
   sumo_home no_home_ext = None \<and>
   fst (main no_home_ext far_net world0) = Inl (SystemExit sumo_home_message) \<and>
   prompts_of (console (snd (main no_home_ext far_net world0))) =
     [''Enter start X coordinate (or edge ID): '',
      ''Enter destination X coordinate (or edge ID): '']"
proof -
  have "sumo_home no_home_lost_ext = None" "sumo_home no_home_ext = None"
    by (simp_all add: no_home_lost_ext_def no_home_ext_def quiet_ext_def)
  then show ?thesis
    by (simp add: no_home_lost_run no_home_run last_print prompts_of_print no_home_prompts
        start_prompts_def destination_prompts_def)
qed

text \<open>
  Claim C9. When both lines typed for a location are numbers, the location is the result of
  \<open>find_nearest_edge\<close>, whatever \<open>valid_edges\<close> is; when the first line is not a
  number, or the first is and the second is not, the location is the first line if it is
  in \<open>valid_edges\<close> and none otherwise. In the network \<open>bus_net\<close> the origin selects
  the edge \<open>busway\<close>, which has no lane for passenger cars and is not in
  \<open>valid_edges\<close>, and \<open>main\<close> goes on with it.
\<close>

theorem coordinates_skip_validity_check:
  "(py_float (input_line X (clock w)) = Some x \<and>
    py_float (input_line X (Suc (clock w))) = Some y \<longrightarrow>
      fst (resolve_location X net valid_edges px py w) = find_nearest_edge net x y) \<and>
   (py_float (input_line X (clock w)) = None \<or>
    py_float (input_line X (Suc (clock w))) = None \<longrightarrow>
      fst (resolve_location X net valid_edges px py w) =
        (if input_line X (clock w) \<in> set valid_edges then Some (input_line X (clock w))
         else None)) \<and>
   fst (resolve_location origin_ext bus_net (valid_edges_of bus_net) px py world0) =
     Some ''busway'' \<and>
   ''busway'' \<notin> set (valid_edges_of bus_net) \<and> \<not> is_valid_vehicle_edge bus_net ''busway'' \<and>
   Print ''Selected start edge: busway'' \<in> set (console (snd (main origin_ext bus_net world0)))"
proof -
  have a: "py_float (input_line X (clock w)) = Some x \<and>
    py_float (input_line X (Suc (clock w))) = Some y \<longrightarrow>
      fst (resolve_location X net valid_edges px py w) = find_nearest_edge net x y"
    by (simp add: resolve_location_result)
  have b: "py_float (input_line X (clock w)) = None \<or>
    py_float (input_line X (Suc (clock w))) = None \<longrightarrow>
      fst (resolve_location X net valid_edges px py w) =
        (if input_line X (clock w) \<in> set valid_edges then Some (input_line X (clock w))
         else None)"
    by (auto simp: resolve_location_result split: option.splits)
  have c: "fst (resolve_location origin_ext bus_net (valid_edges_of bus_net) px py world0) =
      Some ''busway''"
    by (simp add: resolve_location_result origin_ext_def quiet_ext_def world0_def py_float_0
        nearest_origin)
  have d: "''busway'' \<notin> set (valid_edges_of bus_net)"
    by (simp add: valid_edges_of_bus)
  from a b c d busway_invalid busway_selected show ?thesis
    by blast
qed

theorem coordinates_skip_validity_check_witness:
  "fst (resolve_location origin_ext bus_net (valid_edges_of bus_net) ''x: '' ''y: '' world0) =
     Some ''busway'' \<and>
   fst (resolve_location busway_id_ext bus_net (valid_edges_of bus_net) ''x: '' ''y: '' world0) =
     None"
proof -
  have "fst (resolve_location origin_ext bus_net (valid_edges_of bus_net) ''x: '' ''y: '' world0) =
      find_nearest_edge bus_net (Finite 0) (Finite 0)"
    using coordinates_skip_validity_check[of origin_ext world0 "Finite 0" "Finite 0" bus_net
        "valid_edges_of bus_net" "''x: ''" "''y: ''"]
    by (simp add: origin_ext_def quiet_ext_def world0_def py_float_0)
  moreover have "fst (resolve_location busway_id_ext bus_net (valid_edges_of bus_net) ''x: ''
      ''y: '' world0) = None"
    using coordinates_skip_validity_check[of busway_id_ext world0 "Finite 0" "Finite 0" bus_net
        "valid_edges_of bus_net" "''x: ''" "''y: ''"]
    by (simp add: busway_id_ext_def quiet_ext_def world0_def valid_edges_of_bus py_float_busway)
  ultimately show ?thesis by (simp add: nearest_origin)
qed

end
